theory Spec2Isabelle
  imports Main "HOL-Library.Word" "HOL-Library.AList"
begin

section \<open>Data model (internal/models/job.go, migrations)\<close>

text \<open>
  A job id is a \<open>uuid.UUID\<close>, sixteen bytes. Instants are nanoseconds since the epoch,
  unbounded (Go's \<open>time.Time\<close> reaches far beyond any instant the service sees); a
  \<open>time.Duration\<close> is an int64 count of nanoseconds and wraps around as Go's int64
  does. Go's \<open>int\<close> is taken at its 64-bit width.
\<close>

type_synonym uuid = "128 word"
type_synonym Time = int
type_synonym Duration = "64 word"
type_synonym error = string

datatype JobStatus =
    JobStatusPending
  | JobStatusQueued
  | JobStatusProcessing
  | JobStatusCompleted
  | JobStatusFailed
  | JobStatusCancelled

datatype jvalue = JNum int | JStr string | JBool bool

record Operation =
  Parameters :: "(string \<times> jvalue) list"
  Operation :: string

text \<open>
  One record serves as the Go struct \<open>models.Job\<close> and as the row of table \<open>jobs\<close>.
  The nullable text columns (processed_key, error, worker_id) are read through
  \<open>sql.NullString\<close>, which turns NULL into the empty string, and the model keeps that
  reading; the nullable timestamps and processing_time_ms are pointers in Go and options
  here. The operations column holds the JSON of the list; the model stores the list.
\<close>

record Job =
  Operations :: "Operation list"
  StartedAt :: "Time option"
  CompletedAt :: "Time option"
  ProcessingTime :: "int option"
  DeleteAt :: "Time option"
  OriginalKey :: string
  ProcessedKey :: string
  OriginalName :: string
  ContentType :: string
  Error :: string
  WorkerID :: string
  ID :: uuid
  UserID :: uuid
  CreatedAt :: Time
  UpdatedAt :: Time
  FileSize :: int
  Status :: JobStatus
  Progress :: int

record JobMessage =
  msg_Operations :: "Operation list"
  JobID :: uuid

text \<open>\<open>NewJob\<close>: \<open>uuid.New()\<close> and \<open>time.Now()\<close> are read from the arguments.\<close>

definition NewJob :: "uuid \<Rightarrow> Time \<Rightarrow> string \<Rightarrow> string \<Rightarrow> string \<Rightarrow> int \<Rightarrow> Operation list \<Rightarrow> Job" where
  "NewJob fresh now originalKey originalName contentType fileSize operations =
     \<lparr> Operations = operations, StartedAt = None, CompletedAt = None,
       ProcessingTime = None, DeleteAt = None,
       OriginalKey = originalKey, ProcessedKey = [], OriginalName = originalName,
       ContentType = contentType, Error = [], WorkerID = [],
       ID = fresh, UserID = 0, CreatedAt = now, UpdatedAt = now,
       FileSize = fileSize, Status = JobStatusPending, Progress = 0 \<rparr>"

subsection \<open>Time arithmetic (package time)\<close>

definition Hour :: Duration where
  "Hour = 3600000000000"

definition maxDuration :: Duration where
  "maxDuration = 9223372036854775807"

definition minDuration :: Duration where
  "minDuration = - 9223372036854775808"

text \<open>\<open>t.Add(d)\<close>: the instant d nanoseconds after t (before it when d is negative).\<close>

definition Time_Add :: "Time \<Rightarrow> Duration \<Rightarrow> Time" where
  "Time_Add t d = t + sint d"

text \<open>\<open>t.Sub(u)\<close> saturates at the largest and the smallest duration.\<close>

definition Time_Sub :: "Time \<Rightarrow> Time \<Rightarrow> Duration" where
  "Time_Sub t u =
     (if t - u > 9223372036854775807 then maxDuration
      else if t - u < - 9223372036854775808 then minDuration
      else word_of_int (t - u))"

text \<open>\<open>d.Milliseconds()\<close> is \<open>int64(d) / 1e6\<close>; Go's division truncates towards zero.\<close>

definition Milliseconds :: "Duration \<Rightarrow> int" where
  "Milliseconds d =
     (if sint d < 0 then - ((- sint d) div 1000000) else sint d div 1000000)"

section \<open>The world the services act on\<close>

text \<open>
  The metadata store is the list of rows of table \<open>jobs\<close> in insertion order, the blob
  store an association list from keys to objects, the queue the entries appended to the
  stream. Every call that leaves the process first reads the fault schedule of the
  service it goes to (the database, the blob store, the queue): the head of the schedule
  says whether this call fails in transport, and with which driver message; an
  exhausted schedule means no fault. \<open>io\<close> is a call to the database.
  The log keeps the message of every logger call together with its level.
\<close>

record blob =
  blob_data :: string
  blob_type :: string

record world =
  jobs :: "Job list"
  blobs :: "(string \<times> blob) list"
  stream :: "JobMessage list"
  db_faults :: "error option list"
  blob_faults :: "error option list"
  queue_faults :: "error option list"
  logs :: "(string \<times> string) list"

definition next_fault :: "world \<Rightarrow> error option" where
  "next_fault w = (case db_faults w of [] \<Rightarrow> None | f # fs \<Rightarrow> f)"

definition io :: "world \<Rightarrow> error option \<times> world" where
  "io w = (next_fault w, w\<lparr>db_faults := drop 1 (db_faults w)\<rparr>)"

definition blob_io :: "world \<Rightarrow> error option \<times> world" where
  "blob_io w =
     ((case blob_faults w of [] \<Rightarrow> None | f # fs \<Rightarrow> f),
      w\<lparr>blob_faults := drop 1 (blob_faults w)\<rparr>)"

definition queue_io :: "world \<Rightarrow> error option \<times> world" where
  "queue_io w =
     ((case queue_faults w of [] \<Rightarrow> None | f # fs \<Rightarrow> f),
      w\<lparr>queue_faults := drop 1 (queue_faults w)\<rparr>)"

definition logger :: "string \<Rightarrow> string \<Rightarrow> world \<Rightarrow> world" where
  "logger level msg w = w\<lparr>logs := logs w @ [(level, msg)]\<rparr>"

section \<open>Job repository (internal/database/jobs.go)\<close>

text \<open>
  \<open>UPDATE jobs SET ... WHERE ...\<close>: every row that satisfies the condition is rewritten,
  the trigger \<open>update_jobs_updated_at\<close> of the first migration sets its updated_at to
  NOW(), and the statement reports the number of rows affected. The application's
  \<open>time.Now()\<close> and the database's NOW() are one clock in the model.
\<close>

definition exec_update ::
  "(Job \<Rightarrow> bool) \<Rightarrow> (Job \<Rightarrow> Job) \<Rightarrow> Time \<Rightarrow> world \<Rightarrow> (error + nat) \<times> world" where
  "exec_update cond upd now w =
     (case io w of
        (Some e, w') \<Rightarrow> (Inl e, w')
      | (None, w') \<Rightarrow>
          (Inr (length (filter cond (jobs w'))),
           w'\<lparr>jobs := map (\<lambda>j. if cond j then (upd j)\<lparr>UpdatedAt := now\<rparr> else j) (jobs w')\<rparr>))"

text \<open>
  \<open>Create\<close>: the INSERT names ten columns; the others take the defaults of the schema
  (progress 0, the nullable columns NULL). The primary key rejects a second row with the
  same id.
\<close>

definition Create :: "Job \<Rightarrow> world \<Rightarrow> (error + unit) \<times> world" where
  "Create job w =
     (case io w of
        (Some e, w') \<Rightarrow> (Inl (''failed to create job: '' @ e), w')
      | (None, w') \<Rightarrow>
          if ID job \<in> set (map ID (jobs w'))
          then (Inl ''failed to create job: pq: duplicate key value violates unique constraint'', w')
          else (Inr (),
                w'\<lparr>jobs := jobs w' @
                  [\<lparr> Operations = Operations job, StartedAt = None, CompletedAt = None,
                     ProcessingTime = None, DeleteAt = None,
                     OriginalKey = OriginalKey job, ProcessedKey = [],
                     OriginalName = OriginalName job, ContentType = ContentType job,
                     Error = [], WorkerID = [], ID = ID job, UserID = UserID job,
                     CreatedAt = CreatedAt job, UpdatedAt = UpdatedAt job,
                     FileSize = FileSize job, Status = Status job, Progress = 0 \<rparr>]\<rparr>))"

text \<open>
  \<open>GetByID\<close> returns a pointer and an error. The pointer is an option here: the
  function never returns \<open>(nil, nil)\<close>, but its callers test for it.
\<close>

definition GetByID :: "uuid \<Rightarrow> world \<Rightarrow> (error + Job option) \<times> world" where
  "GetByID jid w =
     (case io w of
        (Some e, w') \<Rightarrow> (Inl (''failed to get job: '' @ e), w')
      | (None, w') \<Rightarrow>
          (case find (\<lambda>j. ID j = jid) (jobs w') of
             None \<Rightarrow> (Inl ''job not found'', w')
           | Some job \<Rightarrow> (Inr (Some job), w')))"

definition UpdateStatus :: "uuid \<Rightarrow> JobStatus \<Rightarrow> Time \<Rightarrow> world \<Rightarrow> (error + unit) \<times> world" where
  "UpdateStatus jid status now w =
     (case exec_update (\<lambda>j. ID j = jid) (\<lambda>j. j\<lparr>Status := status\<rparr>) now w of
        (Inl e, w') \<Rightarrow> (Inl (''failed to update job status: '' @ e), w')
      | (Inr rows, w') \<Rightarrow>
          if rows = 0 then (Inl ''job not found'', w') else (Inr (), w'))"

definition UpdateProgress :: "uuid \<Rightarrow> int \<Rightarrow> Time \<Rightarrow> world \<Rightarrow> (error + unit) \<times> world" where
  "UpdateProgress jid progress now w =
     (case exec_update (\<lambda>j. ID j = jid) (\<lambda>j. j\<lparr>Progress := progress\<rparr>) now w of
        (Inl e, w') \<Rightarrow> (Inl e, w')
      | (Inr rows, w') \<Rightarrow> (Inr (), w'))"

definition StartProcessing :: "uuid \<Rightarrow> string \<Rightarrow> Time \<Rightarrow> world \<Rightarrow> (error + unit) \<times> world" where
  "StartProcessing jid workerID now w =
     (case exec_update (\<lambda>j. ID j = jid)
             (\<lambda>j. j\<lparr>Status := JobStatusProcessing, WorkerID := workerID, StartedAt := Some now\<rparr>)
             now w of
        (Inl e, w') \<Rightarrow> (Inl e, w')
      | (Inr rows, w') \<Rightarrow> (Inr (), w'))"

text \<open>
  \<open>CompleteJob\<close> first reads started_at with a query of its own (which fails with
  \<open>sql.ErrNoRows\<close> when the row is gone), then writes the terminal fields.
\<close>

definition CompleteJob ::
  "uuid \<Rightarrow> string \<Rightarrow> 64 word \<Rightarrow> Time \<Rightarrow> world \<Rightarrow> (error + unit) \<times> world" where
  "CompleteJob jid processedKey retentionHours now w =
     (case io w of
        (Some e, w') \<Rightarrow> (Inl (''failed to get started_at: '' @ e), w')
      | (None, w') \<Rightarrow>
          (case find (\<lambda>j. ID j = jid) (jobs w') of
             None \<Rightarrow> (Inl ''failed to get started_at: sql: no rows in result set'', w')
           | Some row \<Rightarrow>
               let processingTime =
                     (case StartedAt row of
                        Some startedAt \<Rightarrow> Milliseconds (Time_Sub now startedAt)
                      | None \<Rightarrow> 0);
                   deleteAt = Time_Add now (retentionHours * Hour)
               in (case exec_update (\<lambda>j. ID j = jid)
                          (\<lambda>j. j\<lparr>Status := JobStatusCompleted, ProcessedKey := processedKey,
                                 Progress := 100, CompletedAt := Some now,
                                 ProcessingTime := Some processingTime,
                                 DeleteAt := Some deleteAt\<rparr>)
                          now w' of
                     (Inl e, w'') \<Rightarrow> (Inl e, w'')
                   | (Inr rows, w'') \<Rightarrow> (Inr (), w''))))"

definition FailJob :: "uuid \<Rightarrow> string \<Rightarrow> Time \<Rightarrow> world \<Rightarrow> (error + unit) \<times> world" where
  "FailJob jid errorMsg now w =
     (case exec_update (\<lambda>j. ID j = jid)
             (\<lambda>j. j\<lparr>Status := JobStatusFailed, Error := errorMsg, CompletedAt := Some now\<rparr>)
             now w of
        (Inl e, w') \<Rightarrow> (Inl e, w')
      | (Inr rows, w') \<Rightarrow> (Inr (), w'))"

definition CancelJob :: "uuid \<Rightarrow> Time \<Rightarrow> world \<Rightarrow> (error + unit) \<times> world" where
  "CancelJob jid now w =
     (case exec_update
             (\<lambda>j. ID j = jid \<and> (Status j = JobStatusPending \<or> Status j = JobStatusQueued))
             (\<lambda>j. j\<lparr>Status := JobStatusCancelled\<rparr>) now w of
        (Inl e, w') \<Rightarrow> (Inl (''failed to cancel job: '' @ e), w')
      | (Inr rows, w') \<Rightarrow>
          if rows = 0
          then (Inl ''job cannot be canceled (already processing or completed)'', w')
          else (Inr (), w'))"

text \<open>
  \<open>GetJobsToCleanup\<close>: the rows whose delete_at is set and before NOW(), by delete_at
  ascending, at most \<open>limit\<close> of them. Rows with equal delete_at keep their table order
  (SQL leaves the order of ties open). PostgreSQL rejects a negative LIMIT.
\<close>

definition expired :: "Time \<Rightarrow> Job \<Rightarrow> bool" where
  "expired now j = (case DeleteAt j of None \<Rightarrow> False | Some d \<Rightarrow> d < now)"

definition GetJobsToCleanup :: "int \<Rightarrow> Time \<Rightarrow> world \<Rightarrow> (error + Job list) \<times> world" where
  "GetJobsToCleanup limit now w =
     (case io w of
        (Some e, w') \<Rightarrow> (Inl (''failed to get jobs to cleanup: '' @ e), w')
      | (None, w') \<Rightarrow>
          if limit < 0
          then (Inl ''failed to get jobs to cleanup: pq: LIMIT must not be negative'', w')
          else (Inr (take (nat limit)
                       (sort_key (\<lambda>j. the (DeleteAt j)) (filter (expired now) (jobs w')))),
                w'))"

definition DeleteJob :: "uuid \<Rightarrow> world \<Rightarrow> (error + unit) \<times> world" where
  "DeleteJob jid w =
     (case io w of
        (Some e, w') \<Rightarrow> (Inl (''failed to delete job: '' @ e), w')
      | (None, w') \<Rightarrow>
          if filter (\<lambda>j. ID j = jid) (jobs w') = []
          then (Inl ''job not found'', w')
          else (Inr (), w'\<lparr>jobs := filter (\<lambda>j. ID j \<noteq> jid) (jobs w')\<rparr>))"


text \<open>The row with a given id, and the primary-key constraint of the table.\<close>

definition row :: "uuid \<Rightarrow> world \<Rightarrow> Job option" where
  "row jid w = find (\<lambda>j. ID j = jid) (jobs w)"

definition pk :: "world \<Rightarrow> bool" where
  "pk w = distinct (map ID (jobs w))"

text \<open>The first \<open>n\<close> calls to the database meet no transport fault.\<close>

definition no_faults :: "nat \<Rightarrow> world \<Rightarrow> bool" where
  "no_faults n w = list_all (\<lambda>f. f = None) (take n (db_faults w))"

section \<open>Blob store (internal/storage)\<close>

subsection \<open>The object store client\<close>

text \<open>
  Package \<open>storage\<close> wraps a client of the object store, \<open>minio.Client\<close>, a library
  outside the repository. Every call to the client first reads the fault schedule of the
  blob store: the head says whether the call returns an error, and which.
  \<open>PutObject\<close> and \<open>RemoveObject\<close> send their request before they return; removing a key
  that holds no object is no error. \<open>GetObject\<close> sends no request: it returns an error
  only when the client refuses the call, and otherwise an object that remembers its
  key. The request goes out when the object is first read, so \<open>Object_Read\<close> is where a
  transport fault or a key without an object shows; it gives the bytes read, or the
  error of the read.
\<close>

type_synonym Object = string

definition PutObject :: "string \<Rightarrow> string \<Rightarrow> int \<Rightarrow> string \<Rightarrow> world \<Rightarrow> (error + unit) \<times> world" where
  "PutObject key content sz contentType w =
     (case blob_io w of
        (Some e, w') \<Rightarrow> (Inl e, w')
      | (None, w') \<Rightarrow>
          (Inr (), w'\<lparr>blobs := AList.update key \<lparr>blob_data = content, blob_type = contentType\<rparr> (blobs w')\<rparr>))"

definition GetObject :: "string \<Rightarrow> world \<Rightarrow> (error + Object) \<times> world" where
  "GetObject key w =
     (case blob_io w of
        (Some e, w') \<Rightarrow> (Inl e, w')
      | (None, w') \<Rightarrow> (Inr key, w'))"

definition Object_Read :: "Object \<Rightarrow> world \<Rightarrow> (error + string) \<times> world" where
  "Object_Read obj w =
     (case blob_io w of
        (Some e, w') \<Rightarrow> (Inl e, w')
      | (None, w') \<Rightarrow>
          (case map_of (blobs w') obj of
             None \<Rightarrow> (Inl ''The specified key does not exist.'', w')
           | Some b \<Rightarrow> (Inr (blob_data b), w')))"

definition RemoveObject :: "string \<Rightarrow> world \<Rightarrow> (error + unit) \<times> world" where
  "RemoveObject key w =
     (case blob_io w of
        (Some e, w') \<Rightarrow> (Inl e, w')
      | (None, w') \<Rightarrow> (Inr (), w'\<lparr>blobs := AList.delete key (blobs w')\<rparr>))"

subsection \<open>Upload, Download, Delete\<close>

text \<open>
  \<open>Upload\<close> and \<open>Download\<close> wrap the error of the client, \<open>Delete\<close> returns it as it
  is. \<open>Download\<close> returns the object of \<open>GetObject\<close> unread. The metrics the three
  functions feed when a collector is injected are counters outside the world.
\<close>

definition Upload :: "string \<Rightarrow> string \<Rightarrow> int \<Rightarrow> string \<Rightarrow> world \<Rightarrow> (error + unit) \<times> world" where
  "Upload key reader sz contentType w =
     (case PutObject key reader sz contentType w of
        (Inl err, w') \<Rightarrow> (Inl (''failed to upload object: '' @ err), w')
      | (Inr info, w') \<Rightarrow> (Inr (), w'))"

definition Download :: "string \<Rightarrow> world \<Rightarrow> (error + Object) \<times> world" where
  "Download key w =
     (case GetObject key w of
        (Inl err, w') \<Rightarrow> (Inl (''failed to get object: '' @ err), w')
      | (Inr obj, w') \<Rightarrow> (Inr obj, w'))"

definition Delete :: "string \<Rightarrow> world \<Rightarrow> (error + unit) \<times> world" where
  "Delete key w = RemoveObject key w"

section \<open>Queue (internal/queue)\<close>

text \<open>\<open>Producer.Enqueue\<close>: XADD appends the message to the stream.\<close>

definition Enqueue :: "JobMessage \<Rightarrow> world \<Rightarrow> (error + unit) \<times> world" where
  "Enqueue msg w =
     (case queue_io w of
        (Some e, w') \<Rightarrow> (Inl (''failed to add to stream: '' @ e), w')
      | (None, w') \<Rightarrow> (Inr (), w'\<lparr>stream := stream w' @ [msg]\<rparr>))"

text \<open>
  The consumer talks to Redis through \<open>XReadGroup\<close>. A call returns a list of streams
  and an error; the error is \<open>redis.Nil\<close> when the server answers with a nil reply (a
  blocking read that ran into its timeout), or a transport error. The client is a
  function from the arguments of the call to its reply, and \<open>Consume\<close> returns, beside
  its result, the calls it has issued, in order.
\<close>

datatype xvalue = XString string | XOther

record XMessage =
  XID :: string
  Values :: "(string \<times> xvalue) list"

record XStream =
  Stream :: string
  Messages :: "XMessage list"

datatype xreply = RedisNil | RedisError error | RedisStreams "XStream list"

record XReadGroupArgs =
  Group :: string
  Consumer :: string
  Streams :: "string list"
  Count :: int
  Block :: Duration

record Consumer =
  streamName :: string
  consumerGroup :: string
  consumerName :: string
  pollTimeout :: Duration

record Message =
  MsgID :: string
  MsgJob :: JobMessage
  MsgData :: string

text \<open>\<open>parseMessage\<close>; \<open>json.Unmarshal\<close> is the argument \<open>decode\<close>.\<close>

definition parseMessage ::
  "(string \<Rightarrow> error + JobMessage) \<Rightarrow> XMessage \<Rightarrow> error + Message option" where
  "parseMessage decode redisMsg =
     (case map_of (Values redisMsg) ''data'' of
        Some (XString data) \<Rightarrow>
          (case decode data of
             Inl e \<Rightarrow> Inl (''failed to unmarshal job message: '' @ e)
           | Inr jobMsg \<Rightarrow> Inr (Some \<lparr>MsgID = XID redisMsg, MsgJob = jobMsg, MsgData = data\<rparr>))
      | _ \<Rightarrow> Inl ''invalid message format: missing data field'')"

text \<open>
  The test \<open>len(streams) > 0 && len(streams[0].Messages) > 0\<close> and the message
  \<open>streams[0].Messages[0]\<close> it guards. A reply with an error carries no streams.
\<close>

definition first_message :: "xreply \<Rightarrow> XMessage option" where
  "first_message r =
     (case r of
        RedisStreams (s # ss) \<Rightarrow> (case Messages s of m # ms \<Rightarrow> Some m | [] \<Rightarrow> None)
      | _ \<Rightarrow> None)"

definition pending_args :: "Consumer \<Rightarrow> XReadGroupArgs" where
  "pending_args c =
     \<lparr>Group = consumerGroup c, Consumer = consumerName c,
      Streams = [streamName c, ''0''], Count = 1, Block = 0\<rparr>"

definition fresh_args :: "Consumer \<Rightarrow> XReadGroupArgs" where
  "fresh_args c =
     \<lparr>Group = consumerGroup c, Consumer = consumerName c,
      Streams = [streamName c, ''>''], Count = 1, Block = pollTimeout c\<rparr>"

definition Consume ::
  "Consumer \<Rightarrow> (XReadGroupArgs \<Rightarrow> xreply) \<Rightarrow> (string \<Rightarrow> error + JobMessage) \<Rightarrow>
   (error + Message option) \<times> XReadGroupArgs list" where
  "Consume c client decode =
     (case client (pending_args c) of
        RedisError e \<Rightarrow> (Inl (''failed to read pending messages: '' @ e), [pending_args c])
      | pendingMessages \<Rightarrow>
          (case first_message pendingMessages of
             Some m \<Rightarrow> (parseMessage decode m, [pending_args c])
           | None \<Rightarrow>
               (case client (fresh_args c) of
                  RedisNil \<Rightarrow> (Inr None, [pending_args c, fresh_args c])
                | RedisError e \<Rightarrow>
                    (Inl (''failed to read from stream: '' @ e), [pending_args c, fresh_args c])
                | RedisStreams streams \<Rightarrow>
                    (case first_message (RedisStreams streams) of
                       None \<Rightarrow> (Inr None, [pending_args c, fresh_args c])
                     | Some m \<Rightarrow> (parseMessage decode m, [pending_args c, fresh_args c])))))"


section \<open>Acceptor (internal/api/handlers.go)\<close>

datatype resp_body = ErrorBody string | JobBody Job | StatusBody string

record response =
  code :: nat
  body :: resp_body

definition writeJSON :: "nat \<Rightarrow> resp_body \<Rightarrow> response" where
  "writeJSON status data = \<lparr>code = status, body = data\<rparr>"

definition writeError :: "nat \<Rightarrow> string \<Rightarrow> response" where
  "writeError status message = writeJSON status (ErrorBody message)"

text \<open>
  Package \<open>strings\<close>. A string is its bytes. \<open>strings.ToLower\<close> maps the letters A to Z
  bytewise when every byte of the string is below \<open>utf8.RuneSelf\<close>, and goes through the
  Unicode tables otherwise (\<open>Map(unicode.ToLower, s)\<close>, which may change the length of the
  string); the tables are the argument \<open>unicodeLower\<close>.
\<close>

definition toLower_char :: "char \<Rightarrow> char" where
  "toLower_char c =
     (case map_of (zip ''ABCDEFGHIJKLMNOPQRSTUVWXYZ'' ''abcdefghijklmnopqrstuvwxyz'') c of
        Some l \<Rightarrow> l
      | None \<Rightarrow> c)"

definition isASCII :: "string \<Rightarrow> bool" where
  "isASCII s = list_all (\<lambda>c. \<not> digit7 c) s"

definition ToLower :: "(string \<Rightarrow> string) \<Rightarrow> string \<Rightarrow> string" where
  "ToLower unicodeLower s = (if isASCII s then map toLower_char s else unicodeLower s)"

text \<open>
  \<open>strings.EqualFold\<close> compares under simple case folding. Its callers compare with the
  four type names of \<open>isValidImageType\<close>, whose letters fold to ASCII letters only (the
  letters with a fold outside ASCII are k and s), so that the comparison is bytewise up
  to the case of the letters A to Z.
\<close>

definition EqualFold :: "string \<Rightarrow> string \<Rightarrow> bool" where
  "EqualFold s t = (map toLower_char s = map toLower_char t)"

definition HasSuffix :: "string \<Rightarrow> string \<Rightarrow> bool" where
  "HasSuffix s suf = (length suf \<le> length s \<and> drop (length s - length suf) s = suf)"

definition isValidImageType :: "string \<Rightarrow> bool" where
  "isValidImageType contentType =
     list_ex (\<lambda>t. EqualFold contentType t)
       [''image/jpeg'', ''image/jpg'', ''image/png'', ''image/gif'']"

definition detectContentType :: "(string \<Rightarrow> string) \<Rightarrow> string \<Rightarrow> string" where
  "detectContentType unicodeLower filename =
     (let lower = ToLower unicodeLower filename in
      if HasSuffix lower ''.jpg'' \<or> HasSuffix lower ''.jpeg'' then ''image/jpeg''
      else if HasSuffix lower ''.png'' then ''image/png''
      else if HasSuffix lower ''.gif'' then ''image/gif''
      else ''application/octet-stream'')"

definition validOps :: "string list" where
  "validOps =
     [''resize'', ''thumbnail'', ''blur'', ''sharpen'', ''grayscale'', ''sepia'',
      ''rotate'', ''flip'', ''brightness'', ''contrast'', ''saturation'', ''watermark'']"

definition isValidOperation :: "string \<Rightarrow> bool" where
  "isValidOperation op = list_ex (\<lambda>valid. op = valid) validOps"

text \<open>\<open>uuid.UUID.String()\<close>: thirty-two hexadecimal digits in groups of 8-4-4-4-12.\<close>

definition hexdigit :: "nat \<Rightarrow> char" where
  "hexdigit n = ''0123456789abcdef'' ! (n mod 16)"

definition uuid_String :: "uuid \<Rightarrow> string" where
  "uuid_String u =
     (let h = map (\<lambda>i. hexdigit (unat (drop_bit (4 * (31 - i)) u))) [0..<32]
      in take 8 h @ ''-'' @ take 4 (drop 8 h) @ ''-'' @ take 4 (drop 12 h) @ ''-'' @
         take 4 (drop 16 h) @ ''-'' @ drop 20 h)"

text \<open>
  A POST /api/v1/jobs request as the handler reads it: the session of the request
  context, the outcome of \<open>ParseMultipartForm\<close>, the file part \<open>image\<close> when there is
  one, and the form value \<open>operations\<close>, which is empty, or text that
  \<open>json.Unmarshal\<close> rejects with a message, or the JSON of a list of operations.
  \<open>fresh\<close> is the id that \<open>uuid.New\<close> draws and \<open>now\<close> the clock of the request.
\<close>

record upload =
  Filename :: string
  PartContentType :: string
  Size :: int
  Content :: string

datatype operations_field = OpsEmpty | OpsMalformed string | OpsList "Operation list"

record post_request =
  session :: "uuid option"
  form_error :: "error option"
  image :: "upload option"
  operationsJSON :: operations_field

definition Handlers_CreateJob ::
  "(string \<Rightarrow> string) \<Rightarrow> uuid \<Rightarrow> Time \<Rightarrow> post_request \<Rightarrow> world \<Rightarrow> response \<times> world" where
  "Handlers_CreateJob unicodeLower fresh now r w =
     (let userID = (case session r of Some u \<Rightarrow> u | None \<Rightarrow> 0) in
      case form_error r of
        Some e \<Rightarrow> (writeError 400 (''failed to parse form: '' @ e), w)
      | None \<Rightarrow>
      (case image r of
        None \<Rightarrow> (writeError 400 ''image file is required'', w)
      | Some header \<Rightarrow>
      let contentType =
            (if isValidImageType (PartContentType header) then PartContentType header
             else detectContentType unicodeLower (Filename header))
      in
      if \<not> isValidImageType contentType
      then (writeError 400 ''invalid image type, must be JPEG, PNG, or GIF'', w)
      else
      (case operationsJSON r of
        OpsMalformed e \<Rightarrow> (writeError 400 (''invalid operations JSON: '' @ e), w)
      | parsed \<Rightarrow>
      let operations = (case parsed of OpsList ops \<Rightarrow> ops | _ \<Rightarrow> []) in
      (case find (\<lambda>op. \<not> isValidOperation (Operation op)) operations of
        Some op \<Rightarrow> (writeError 400 (''invalid operation: '' @ Operation op), w)
      | None \<Rightarrow>
      let operations =
            (if operations = []
             then [\<lparr>Parameters = [(''size'', JNum 150)], Operation = ''thumbnail''\<rparr>]
             else operations);
          originalKey = ''users/'' @ uuid_String userID @ ''/original/'' @ uuid_String fresh
                          @ ''/'' @ Filename header
      in
      (case Upload originalKey (Content header) (Size header) contentType w of
        (Inl e, w1) \<Rightarrow>
          (writeError 500 ''failed to upload file'', logger ''ERROR'' ''failed to upload file'' w1)
      | (Inr u, w1) \<Rightarrow>
      let job = (NewJob fresh now originalKey (Filename header) contentType (Size header) operations)
                  \<lparr>ID := fresh, UserID := userID\<rparr>
      in
      (case Create job w1 of
        (Inl e, w2) \<Rightarrow>
          (writeError 500 ''failed to create job'', logger ''ERROR'' ''failed to create job'' w2)
      | (Inr u, w2) \<Rightarrow>
      let w3 = (case UpdateStatus (ID job) JobStatusQueued now w2 of
                  (Inl e, w3) \<Rightarrow> logger ''ERROR'' ''failed to update job status'' w3
                | (Inr u, w3) \<Rightarrow> w3);
          job = job\<lparr>Status := JobStatusQueued\<rparr>
      in
      (case Enqueue \<lparr>msg_Operations = operations, JobID = ID job\<rparr> w3 of
        (Inl e, w4) \<Rightarrow>
          let w5 = logger ''ERROR'' ''failed to enqueue job'' w4;
              w6 = (case UpdateStatus (ID job) JobStatusPending now w5 of
                      (Inl e, w6) \<Rightarrow> logger ''ERROR'' ''failed to update job status'' w6
                    | (Inr u, w6) \<Rightarrow> w6)
          in (writeError 500 ''failed to queue job'', w6)
      | (Inr u, w4) \<Rightarrow>
          (writeJSON 201 (JobBody job), logger ''INFO'' ''job created'' w4))))))))"

text \<open>
  GET and DELETE /api/v1/jobs/{id}: the path parameter is \<open>None\<close> when \<open>uuid.Parse\<close>
  rejects it.
\<close>

definition Handlers_GetJob :: "uuid option \<Rightarrow> world \<Rightarrow> response \<times> world" where
  "Handlers_GetJob idStr w =
     (case idStr of
        None \<Rightarrow> (writeError 400 ''invalid job ID'', w)
      | Some jid \<Rightarrow>
          (case GetByID jid w of
             (Inl e, w') \<Rightarrow>
               (writeError 500 ''failed to get job'', logger ''ERROR'' ''failed to get job'' w')
           | (Inr None, w') \<Rightarrow> (writeError 404 ''job not found'', w')
           | (Inr (Some job), w') \<Rightarrow> (writeJSON 200 (JobBody job), w')))"

definition Handlers_CancelJob :: "uuid option \<Rightarrow> Time \<Rightarrow> world \<Rightarrow> response \<times> world" where
  "Handlers_CancelJob idStr now w =
     (case idStr of
        None \<Rightarrow> (writeError 400 ''invalid job ID'', w)
      | Some jid \<Rightarrow>
          (case CancelJob jid now w of
             (Inl e, w') \<Rightarrow> (writeError 400 e, logger ''ERROR'' ''failed to cancel job'' w')
           | (Inr u, w') \<Rightarrow> (writeJSON 200 (StatusBody ''canceled''), w')))"

section \<open>Worker (cmd/worker/main.go)\<close>

text \<open>
  \<open>processJob\<close>. \<open>processor.Process\<close> starts with \<open>image.Decode(reader)\<close>, which is
  the first read of the object that \<open>Download\<close> returned; what it makes of the outcome
  of the read, of the content type and of the operations is the argument \<open>process\<close>.
  \<open>now\<close> is the clock when the job is claimed and \<open>fin\<close> the clock when its outcome is
  recorded. The errors of \<open>FailJob\<close> are dropped, as in the source.
\<close>

record ProcessResult =
  res_Data :: string
  res_ContentType :: string

definition processJob ::
  "string \<Rightarrow> (error + string \<Rightarrow> string \<Rightarrow> Operation list \<Rightarrow> error + ProcessResult) \<Rightarrow>
   Message \<Rightarrow> Time \<Rightarrow> Time \<Rightarrow> world \<Rightarrow> error option \<times> world" where
  "processJob workerID process msg now fin w =
     (let jobID = JobID (MsgJob msg);
          w = logger ''INFO'' ''starting job processing'' w
      in
      case GetByID jobID w of
        (Inl e, w) \<Rightarrow> (Some (''failed to get job: '' @ e), w)
      | (Inr None, w) \<Rightarrow> (None, logger ''WARN'' ''job not found, skipping'' w)
      | (Inr (Some job), w) \<Rightarrow>
      if Status job = JobStatusCancelled
      then (None, logger ''INFO'' ''job canceled, skipping'' w)
      else
      (case StartProcessing jobID workerID now w of
        (Inl e, w) \<Rightarrow> (Some (''failed to start processing: '' @ e), w)
      | (Inr u, w) \<Rightarrow>
      (case Download (OriginalKey job) (logger ''INFO'' ''downloading original image'' w) of
        (Inl e, w) \<Rightarrow>
          (Some (''failed to download image: '' @ e),
           snd (FailJob jobID (''failed to download image: '' @ e) fin w))
      | (Inr reader, w) \<Rightarrow>
      (case Object_Read reader (logger ''INFO'' ''processing image'' w) of
        (decoded, w) \<Rightarrow>
      (case process decoded (ContentType job) (msg_Operations (MsgJob msg)) of
        Inl e \<Rightarrow>
          (Some (''failed to process image: '' @ e),
           snd (FailJob jobID (''failed to process image: '' @ e) fin w))
      | Inr result \<Rightarrow>
      let processedKey = ''processed/'' @ uuid_String jobID @ ''/'' @ OriginalName job;
          w = logger ''INFO'' ''uploading processed image'' w
      in
      (case Upload processedKey (res_Data result) (int (length (res_Data result)))
              (res_ContentType result) w of
        (Inl e, w) \<Rightarrow>
          (Some (''failed to upload processed image: '' @ e),
           snd (FailJob jobID (''failed to upload processed image: '' @ e) fin w))
      | (Inr u, w) \<Rightarrow>
      (case CompleteJob jobID processedKey 1 fin w of
        (Inl e, w) \<Rightarrow> (Some (''failed to complete job: '' @ e), w)
      | (Inr u, w) \<Rightarrow> (None, logger ''INFO'' ''job completed successfully'' w))))))))"

section \<open>Sweeper (internal/cleanup)\<close>

record Config =
  Interval :: Duration
  BatchSize :: int

record Worker =
  interval :: Duration
  batchSize :: int

definition NewWorker :: "Config \<Rightarrow> Worker" where
  "NewWorker cfg =
     \<lparr>interval = (if Interval cfg = 0 then 5 * 60000000000 else Interval cfg),
      batchSize = (if BatchSize cfg = 0 then 100 else BatchSize cfg)\<rparr>"

definition cleanupJob :: "Job \<Rightarrow> world \<Rightarrow> error option \<times> world" where
  "cleanupJob job w =
     (let w = (if OriginalKey job \<noteq> []
               then (case Delete (OriginalKey job) (logger ''INFO'' ''deleting original file'' w) of
                       (Inl e, w) \<Rightarrow> logger ''ERROR'' ''failed to delete original file'' w
                     | (Inr u, w) \<Rightarrow> w)
               else w);
          w = (if ProcessedKey job \<noteq> []
               then (case Delete (ProcessedKey job) (logger ''INFO'' ''deleting processed file'' w) of
                       (Inl e, w) \<Rightarrow> logger ''ERROR'' ''failed to delete processed file'' w
                     | (Inr u, w) \<Rightarrow> w)
               else w)
      in
      case DeleteJob (ID job) (logger ''INFO'' ''deleting job record'' w) of
        (Inl e, w) \<Rightarrow> (Some e, w)
      | (Inr u, w) \<Rightarrow> (None, logger ''INFO'' ''job cleaned up successfully'' w))"

text \<open>
  The loop of \<open>cleanup\<close> over the selected jobs: a job whose cleanup fails is logged and
  the loop goes on. (The two counters of the source only feed the closing log line.)
\<close>

fun cleanup_loop :: "Job list \<Rightarrow> world \<Rightarrow> world" where
  "cleanup_loop [] w = w"
| "cleanup_loop (job # rest) w =
     (case cleanupJob job w of
        (Some e, w') \<Rightarrow> cleanup_loop rest (logger ''ERROR'' ''failed to cleanup job'' w')
      | (None, w') \<Rightarrow> cleanup_loop rest w')"

definition cleanup :: "Worker \<Rightarrow> Time \<Rightarrow> world \<Rightarrow> error option \<times> world" where
  "cleanup wk now w =
     (case GetJobsToCleanup (batchSize wk) now (logger ''INFO'' ''starting cleanup cycle'' w) of
        (Inl e, w') \<Rightarrow> (Some e, w')
      | (Inr selected, w') \<Rightarrow>
          if selected = [] then (None, logger ''INFO'' ''no jobs to cleanup'' w')
          else (None,
                logger ''INFO'' ''cleanup cycle completed''
                  (cleanup_loop selected (logger ''INFO'' ''found jobs to cleanup'' w'))))"


section \<open>The system as a transition relation\<close>

text \<open>
  One step is one action of a component: the acceptor creating, fetching or cancelling
  a job, the worker processing a message, the sweeper running a cycle. No component
  calls \<open>UpdateProgress\<close>. The last rule stands for everything that leaves table
  \<open>jobs\<close> as it is: the read-only handlers (list, stream, download, statistics,
  health), the authentication handlers, and the environment choosing the transport
  faults to come.
\<close>

inductive step :: "world \<Rightarrow> world \<Rightarrow> bool" where
  step_create: "step w (snd (Handlers_CreateJob unicodeLower fresh now r w))"
| step_get: "step w (snd (Handlers_GetJob idStr w))"
| step_cancel: "step w (snd (Handlers_CancelJob idStr now w))"
| step_process: "step w (snd (processJob workerID process msg now fin w))"
| step_cleanup: "step w (snd (cleanup wk now w))"
| step_other: "jobs w' = jobs w \<Longrightarrow> step w w'"

inductive reachable :: "world \<Rightarrow> bool" where
  reachable_init: "reachable \<lparr>jobs = [], blobs = [], stream = [], db_faults = ds,
       blob_faults = bs, queue_faults = qs, logs = []\<rparr>"
| reachable_step: "reachable w \<Longrightarrow> step w w' \<Longrightarrow> reachable w'"

section \<open>Notions used in the statements\<close>

text \<open>
  \<open>fault_at n\<close> of a fault schedule is the fault of the call after the next \<open>n\<close> calls
  to the service, \<open>None\<close> when that call goes through.

  What the validation steps of \<open>CreateJob\<close> look at: the operations the request
  names, and whether the request gets past form parsing and the checks of the file part
  and of its content type.
\<close>

definition fault_at :: "nat \<Rightarrow> error option list \<Rightarrow> error option" where
  "fault_at n faults = (case drop n faults of [] \<Rightarrow> None | f # rest \<Rightarrow> f)"

definition requested_operations :: "post_request \<Rightarrow> Operation list" where
  "requested_operations r = (case operationsJSON r of OpsList ops \<Rightarrow> ops | _ \<Rightarrow> [])"

definition accepted_image :: "(string \<Rightarrow> string) \<Rightarrow> post_request \<Rightarrow> bool" where
  "accepted_image unicodeLower r =
     (form_error r = None \<and>
      (case image r of
         None \<Rightarrow> False
       | Some header \<Rightarrow>
           isValidImageType (PartContentType header) \<or>
           isValidImageType (detectContentType unicodeLower (Filename header))))"

definition valid_request :: "(string \<Rightarrow> string) \<Rightarrow> post_request \<Rightarrow> bool" where
  "valid_request unicodeLower r =
     (accepted_image unicodeLower r \<and>
      (case operationsJSON r of OpsMalformed e \<Rightarrow> False | _ \<Rightarrow> True) \<and>
      list_all (\<lambda>op. isValidOperation (Operation op)) (requested_operations r))"


text \<open>
  Progress of a row from one table to the next. A row is in order when its progress is 0
  or 100, and 100 when it is COMPLETED. A row keeps its progress when it has the same id
  and the same progress afterwards and has not become COMPLETED; it advances for a job id
  when it keeps its progress, or is the row of that id and ends COMPLETED with progress
  100. A world preserves another when its table holds the same rows in the same order,
  each keeping its progress, and updates it for a job id when each row advances for
  that id.
\<close>

definition progress_ok :: "Job \<Rightarrow> bool" where
  "progress_ok j =
     ((Progress j = 0 \<or> Progress j = 100) \<and> (Status j = JobStatusCompleted \<longrightarrow> Progress j = 100))"

definition keeps :: "Job \<Rightarrow> Job \<Rightarrow> bool" where
  "keeps j j' =
     (ID j' = ID j \<and> Progress j' = Progress j \<and>
      (Status j' = JobStatusCompleted \<longrightarrow> Status j = JobStatusCompleted))"

definition advances :: "uuid \<Rightarrow> Job \<Rightarrow> Job \<Rightarrow> bool" where
  "advances jid j j' =
     (keeps j j' \<or>
      (ID j = jid \<and> ID j' = jid \<and> Progress j' = 100 \<and> Status j' = JobStatusCompleted))"

definition preserves :: "world \<Rightarrow> world \<Rightarrow> bool" where
  "preserves w w' = list_all2 keeps (jobs w) (jobs w')"

definition updates :: "uuid \<Rightarrow> world \<Rightarrow> world \<Rightarrow> bool" where
  "updates jid w w' = list_all2 (advances jid) (jobs w) (jobs w')"

text \<open>
  A world appends to another when it preserves it, or preserves it after one new row
  with progress 0, a status other than COMPLETED and an unused id; it removes from
  another when its table is a selection of the other's rows.
\<close>

definition appends :: "world \<Rightarrow> world \<Rightarrow> bool" where
  "appends w w' =
     (preserves w w' \<or>
      (\<exists>new. Progress new = 0 \<and> Status new \<noteq> JobStatusCompleted \<and> ID new \<notin> ID ` set (jobs w) \<and>
             list_all2 keeps (jobs w @ [new]) (jobs w')))"

definition removes :: "world \<Rightarrow> world \<Rightarrow> bool" where
  "removes w w' = (\<exists>P. jobs w' = filter P (jobs w))"

definition inv :: "world \<Rightarrow> bool" where
  "inv w = (pk w \<and> (\<forall>j\<in>set (jobs w). progress_ok j))"

section \<open>Concrete jobs, requests and worlds\<close>

definition job1 :: Job where
  "job1 = NewJob 1 100 ''users/u/original/1/cat.png'' ''cat.png'' ''image/png'' 2048 []"

definition world_of :: "Job list \<Rightarrow> world" where
  "world_of js =
     \<lparr>jobs = js, blobs = [], stream = [], db_faults = [], blob_faults = [],
      queue_faults = [], logs = []\<rparr>"

definition cat_png :: upload where
  "cat_png = \<lparr>Filename = ''cat.png'', PartContentType = ''image/png'', Size = 2048, Content = ''PNG''\<rparr>"

definition request_of :: "upload option \<Rightarrow> string list \<Rightarrow> post_request" where
  "request_of img names =
     \<lparr>session = None, form_error = None, image = img,
      operationsJSON = OpsList (map (\<lambda>n. \<lparr>Parameters = [], Operation = n\<rparr>) names)\<rparr>"

text \<open>
  The file names of the requests below are ASCII, so that \<open>strings.ToLower\<close> does not
  consult the Unicode tables; \<open>ascii_only\<close> stands for the tables there.
\<close>

definition ascii_only :: "string \<Rightarrow> string" where
  "ascii_only s = s"

text \<open>A consumer and two Redis clients to run it against.\<close>

definition worker_consumer :: Consumer where
  "worker_consumer =
     \<lparr>streamName = ''image-jobs'', consumerGroup = ''workers'',
      consumerName = ''worker-1a2b3c4d'', pollTimeout = 5000000000\<rparr>"

definition idle_client :: "XReadGroupArgs \<Rightarrow> xreply" where
  "idle_client a =
     (if Streams a = [''image-jobs'', ''0'']
      then RedisStreams [\<lparr>Stream = ''image-jobs'', Messages = []\<rparr>]
      else RedisNil)"

definition empty_reply_client :: "XReadGroupArgs \<Rightarrow> xreply" where
  "empty_reply_client a =
     (if Streams a = [''image-jobs'', ''0'']
      then RedisStreams [\<lparr>Stream = ''image-jobs'', Messages = []\<rparr>]
      else RedisStreams [])"

text \<open>A table for the sweeper, and a world reached by one accepted upload.\<close>

definition sweep_world :: world where
  "sweep_world =
     (world_of
        [job1\<lparr>Status := JobStatusCompleted, DeleteAt := Some 50\<rparr>,
         job1\<lparr>ID := 2, Status := JobStatusCompleted, OriginalKey := ''users/u/original/2/dog.png'',
               ProcessedKey := ''processed/2/dog.png'', DeleteAt := Some 30\<rparr>,
         job1\<lparr>ID := 3\<rparr>])
       \<lparr>blobs := [(''users/u/original/2/dog.png'', \<lparr>blob_data = ''PNG'', blob_type = ''image/png''\<rparr>),
                  (''processed/2/dog.png'', \<lparr>blob_data = ''PNG'', blob_type = ''image/png''\<rparr>)],
        blob_faults := [Some ''connection refused'']\<rparr>"

definition uploaded_world :: world where
  "uploaded_world =
     snd (Handlers_CreateJob ascii_only 1 100 (request_of (Some cat_png) [''blur'']) (world_of []))"

section \<open>Properties of the repository\<close>

lemmas eval_defs = world_of_def job1_def NewJob_def row_def pk_def no_faults_def
  next_fault_def io_def exec_update_def

lemma find_map_preserved:
  "(\<And>x. P (g x) = P x) \<Longrightarrow> find P (map g xs) = map_option g (find P xs)"
  by (induction xs) auto

lemma find_Some_distinct:
  "distinct (map ID xs) \<Longrightarrow> (find (\<lambda>j. ID j = jid) xs = Some j) = (j \<in> set xs \<and> ID j = jid)"
  by (induction xs) (auto simp: image_iff)

lemma map_unchanged:
  "(\<And>x. x \<in> set xs \<Longrightarrow> \<not> c x) \<Longrightarrow> map (\<lambda>j. if c j then g j else j) xs = xs"
  by (induction xs) auto

lemma row_Some_pk: "pk w \<Longrightarrow> (row jid w = Some j) = (j \<in> set (jobs w) \<and> ID j = jid)"
  by (simp add: row_def pk_def find_Some_distinct)

lemma row_Some_ID: "row jid w = Some j \<Longrightarrow> ID j = jid \<and> j \<in> set (jobs w)"
  by (auto simp: row_def find_Some_iff)




lemma exec_update_fault:
  "next_fault w = Some e \<Longrightarrow> exec_update c u now w = (r, w') \<Longrightarrow> r = Inl e \<and> jobs w' = jobs w"
  by (auto simp: exec_update_def io_def)

lemma exec_update_result:
  "next_fault w = None \<Longrightarrow> exec_update c u now w = (r, w') \<Longrightarrow>
     r = Inr (length (filter c (jobs w)))"
  by (auto simp: exec_update_def io_def)

lemma exec_update_jobs:
  "next_fault w = None \<Longrightarrow> exec_update c u now w = (r, w') \<Longrightarrow>
     jobs w' = map (\<lambda>j. if c j then (u j)\<lparr>UpdatedAt := now\<rparr> else j) (jobs w)"
  by (auto simp: exec_update_def io_def)

lemma exec_update_row:
  assumes "next_fault w = None" and "exec_update c u now w = (r, w')" and "\<And>j. ID (u j) = ID j"
  shows "row jid w' = map_option (\<lambda>j. if c j then (u j)\<lparr>UpdatedAt := now\<rparr> else j) (row jid w)"
  unfolding row_def exec_update_jobs [OF assms(1,2)]
  by (rule find_map_preserved) (simp add: assms(3))

lemma exec_update_no_match:
  assumes "exec_update c u now w = (r, w')" and "\<And>j. j \<in> set (jobs w) \<Longrightarrow> \<not> c j"
  shows "jobs w' = jobs w"
proof (cases "next_fault w")
  case None
  then show ?thesis
    using exec_update_jobs [OF None assms(1)] map_unchanged [of "jobs w" c] assms(2) by simp
next
  case (Some e)
  then show ?thesis using exec_update_fault [OF Some assms(1)] by simp
qed



lemma row_io [simp]: "row jid (snd (io w)) = row jid w"
  by (simp add: row_def io_def)

subsection \<open>Durations\<close>





subsection \<open>QUEUED to PROCESSING\<close>




subsection \<open>PROCESSING to FAILED\<close>




subsection \<open>Cancellation\<close>

text \<open>
  Claim C5. On a table that respects its primary key and with the database reachable,
  \<open>CancelJob\<close> succeeds exactly when the row with the given id has status PENDING or
  QUEUED, and then that row is CANCELLED; otherwise it returns the error "job cannot be
  canceled (already processing or completed)" and the table is unchanged. The test of the
  status and the write are the one UPDATE statement.
\<close>

theorem CancelJob_conditional:
  assumes "pk w" and "next_fault w = None" and "CancelJob jid now w = (res, w')"
  shows "((res = Inr ()) =
           (\<exists>j. row jid w = Some j \<and> (Status j = JobStatusPending \<or> Status j = JobStatusQueued)))
    \<and> (res = Inr () \<longrightarrow>
           row jid w' = map_option (\<lambda>j. j\<lparr>Status := JobStatusCancelled, UpdatedAt := now\<rparr>) (row jid w))
    \<and> (res \<noteq> Inr () \<longrightarrow>
           res = Inl ''job cannot be canceled (already processing or completed)'' \<and> jobs w' = jobs w)"
proof -
  let ?c = "\<lambda>j. ID j = jid \<and> (Status j = JobStatusPending \<or> Status j = JobStatusQueued)"
  let ?u = "\<lambda>j. j\<lparr>Status := JobStatusCancelled\<rparr>"
  obtain r w1 where ex: "exec_update ?c ?u now w = (r, w1)"
    by (cases "exec_update ?c ?u now w")
  have r: "r = Inr (length (filter ?c (jobs w)))"
    by (rule exec_update_result [OF assms(2) ex])
  have w1: "w' = w1"
    using assms(3) ex r by (simp add: CancelJob_def split: if_splits)
  have match: "(\<exists>j\<in>set (jobs w). ?c j) =
                 (\<exists>j. row jid w = Some j \<and> (Status j = JobStatusPending \<or> Status j = JobStatusQueued))"
    using assms(1) by (auto simp: row_Some_pk)
  have res: "res = (if \<exists>j\<in>set (jobs w). ?c j then Inr ()
                    else Inl ''job cannot be canceled (already processing or completed)'')"
    using assms(3) ex r by (auto simp: CancelJob_def filter_empty_conv split: if_splits)
  have A: "(res = Inr ()) =
           (\<exists>j. row jid w = Some j \<and> (Status j = JobStatusPending \<or> Status j = JobStatusQueued))"
    using res match by (simp split: if_splits)
  have B: "row jid w' = map_option (\<lambda>j. j\<lparr>Status := JobStatusCancelled, UpdatedAt := now\<rparr>) (row jid w)"
    if "res = Inr ()"
  proof -
    from that A obtain j where j: "row jid w = Some j" "?c j"
      using assms(1) by (auto simp: row_Some_pk)
    have "row jid w1 = map_option (\<lambda>j. if ?c j then (?u j)\<lparr>UpdatedAt := now\<rparr> else j) (row jid w)"
      by (rule exec_update_row [OF assms(2) ex]) simp
    then show ?thesis using j w1 by simp
  qed
  have C: "jobs w' = jobs w" if "res \<noteq> Inr ()"
  proof -
    from that res have "\<And>j. j \<in> set (jobs w) \<Longrightarrow> \<not> ?c j" by (auto split: if_splits)
    then show ?thesis using exec_update_no_match [OF ex] w1 by blast
  qed
  show ?thesis using A B C res by (auto split: if_splits)
qed

theorem CancelJob_conditional_witness:
  "pk (world_of [job1\<lparr>Status := JobStatusQueued\<rparr>])
   \<and> next_fault (world_of [job1\<lparr>Status := JobStatusQueued\<rparr>]) = None
   \<and> fst (CancelJob 1 700 (world_of [job1\<lparr>Status := JobStatusQueued\<rparr>])) = Inr ()
   \<and> row 1 (snd (CancelJob 1 700 (world_of [job1\<lparr>Status := JobStatusQueued\<rparr>])))
       = Some (job1\<lparr>Status := JobStatusCancelled, UpdatedAt := 700\<rparr>)"
proof -
  let ?w = "world_of [job1\<lparr>Status := JobStatusQueued\<rparr>]"
  have h1: "pk ?w" by (simp add: eval_defs)
  have h2: "next_fault ?w = None" by (simp add: eval_defs)
  have r: "row 1 ?w = Some (job1\<lparr>Status := JobStatusQueued\<rparr>)" by (simp add: eval_defs)
  show ?thesis
    using h1 h2 r CancelJob_conditional [OF h1 h2 surjective_pairing, of 1 700]
    by simp
qed

subsection \<open>PROCESSING to COMPLETED\<close>






section \<open>Properties of the acceptor\<close>

lemmas request_defs = request_of_def cat_png_def valid_request_def accepted_image_def
  requested_operations_def isValidImageType_def EqualFold_def toLower_char_def
  isValidOperation_def validOps_def

lemmas handler_defs = Handlers_CreateJob_def Upload_def PutObject_def blob_io_def Create_def
  UpdateStatus_def Enqueue_def queue_io_def logger_def writeJSON_def writeError_def Let_def


subsection \<open>Unknown operation names\<close>

text \<open>
  Claim C7, as the code has it. A POST /api/v1/jobs request whose operations list holds
  a name outside the valid set is answered with status 400, and the store, the blob store
  and the queue (the whole world) are left as they were. When the request also gets past
  form parsing and carries an image part of an accepted type, the body is the error
  "invalid operation: " followed by the first such name of the list.
\<close>

theorem CreateJob_invalid_operation:
  assumes ops: "operationsJSON r = OpsList ops"
    and bad: "find (\<lambda>op. \<not> isValidOperation (Operation op)) ops = Some bad"
  shows "snd (Handlers_CreateJob unicodeLower fresh now r w) = w
    \<and> code (fst (Handlers_CreateJob unicodeLower fresh now r w)) = 400
    \<and> (accepted_image unicodeLower r \<longrightarrow>
         fst (Handlers_CreateJob unicodeLower fresh now r w)
           = \<lparr>code = 400, body = ErrorBody (''invalid operation: '' @ Operation bad)\<rparr>)"
proof (cases "form_error r")
  case (Some e)
  then show ?thesis
    by (simp add: Handlers_CreateJob_def writeError_def writeJSON_def accepted_image_def)
next
  case None
  show ?thesis
  proof (cases "image r")
    case no_image: None
    then show ?thesis using None
      by (simp add: Handlers_CreateJob_def writeError_def writeJSON_def accepted_image_def)
  next
    case (Some header)
    show ?thesis
    proof (cases "isValidImageType (PartContentType header) \<or>
                  isValidImageType (detectContentType unicodeLower (Filename header))")
      case True
      then show ?thesis using None Some ops bad
        by (auto simp: Handlers_CreateJob_def writeError_def writeJSON_def accepted_image_def)
    next
      case False
      then show ?thesis using None Some
        by (simp add: Handlers_CreateJob_def writeError_def writeJSON_def accepted_image_def)
    qed
  qed
qed

theorem CreateJob_invalid_operation_witness:
  "operationsJSON (request_of (Some cat_png) [''blur'', ''crop'', ''spin''])
     = OpsList [\<lparr>Parameters = [], Operation = ''blur''\<rparr>, \<lparr>Parameters = [], Operation = ''crop''\<rparr>,
                \<lparr>Parameters = [], Operation = ''spin''\<rparr>]
   \<and> Handlers_CreateJob ascii_only 1 100 (request_of (Some cat_png) [''blur'', ''crop'', ''spin'']) (world_of [job1])
       = (\<lparr>code = 400, body = ErrorBody ''invalid operation: crop''\<rparr>, world_of [job1])"
proof -
  let ?r = "request_of (Some cat_png) [''blur'', ''crop'', ''spin'']"
  let ?ops = "[\<lparr>Parameters = [], Operation = ''blur''\<rparr>, \<lparr>Parameters = [], Operation = ''crop''\<rparr>,
               \<lparr>Parameters = [], Operation = ''spin''\<rparr>]"
  have h1: "operationsJSON ?r = OpsList ?ops" by (simp add: request_of_def)
  have h2: "find (\<lambda>op. \<not> isValidOperation (Operation op)) ?ops
              = Some \<lparr>Parameters = [], Operation = ''crop''\<rparr>"
    by (simp add: isValidOperation_def validOps_def)
  have a: "accepted_image ascii_only ?r" by (simp add: request_defs)
  show ?thesis
    using h1 a CreateJob_invalid_operation [OF h1 h2, of ascii_only 1 100 "world_of [job1]"]
    by (simp add: prod_eq_iff)
qed

text \<open>
  A request that names the unknown operation "crop" and carries no image part is
  answered with "image file is required".
\<close>

theorem CreateJob_invalid_operation_counterexample:
  "Handlers_CreateJob ascii_only 1 100 (request_of None [''crop'']) (world_of [])
     = (\<lparr>code = 400, body = ErrorBody ''image file is required''\<rparr>, world_of [])"
  by (simp add: Handlers_CreateJob_def request_of_def writeError_def writeJSON_def)

subsection \<open>Creating and enqueueing\<close>

lemma fault_at_drop: "fault_at n (drop m fs) = fault_at (n + m) fs"
  by (simp add: fault_at_def)







subsection \<open>Unknown job ids\<close>

text \<open>
  Claim C2, as the code has it. For every job id that has no row in the metadata store,
  DELETE /api/v1/jobs/{id} is answered with status 400 and changes no row; with the
  database reachable the body is the error "job cannot be canceled (already processing
  or completed)".
\<close>

theorem CancelJob_unknown_id:
  assumes "row jid w = None"
  shows "code (fst (Handlers_CancelJob (Some jid) now w)) = 400
    \<and> jobs (snd (Handlers_CancelJob (Some jid) now w)) = jobs w
    \<and> (next_fault w = None \<longrightarrow>
         body (fst (Handlers_CancelJob (Some jid) now w))
           = ErrorBody ''job cannot be canceled (already processing or completed)'')"
proof -
  have none: "\<And>j. j \<in> set (jobs w) \<Longrightarrow> ID j \<noteq> jid"
    using assms by (simp add: row_def find_None_iff)
  then have empty: "filter (\<lambda>j. ID j = jid \<and> (Status j = JobStatusPending \<or> Status j = JobStatusQueued)) (jobs w) = []"
    by (auto simp: filter_empty_conv)
  have same: "map (\<lambda>j. if ID j = jid \<and> (Status j = JobStatusPending \<or> Status j = JobStatusQueued)
                        then j\<lparr>Status := JobStatusCancelled, UpdatedAt := now\<rparr> else j) (jobs w) = jobs w"
    using none by (induction "jobs w") (auto simp: map_idI)
  show ?thesis
    by (cases "next_fault w")
       (simp_all add: Handlers_CancelJob_def CancelJob_def exec_update_def io_def empty same
          logger_def writeError_def writeJSON_def)
qed


theorem CancelJob_unknown_id_witness:
  "row 7 (world_of [job1]) = None
   \<and> fst (Handlers_CancelJob (Some 7) 700 (world_of [job1]))
       = \<lparr>code = 400, body = ErrorBody ''job cannot be canceled (already processing or completed)''\<rparr>
   \<and> jobs (snd (Handlers_CancelJob (Some 7) 700 (world_of [job1]))) = [job1]"
proof -
  have h: "row 7 (world_of [job1]) = None" by (simp add: eval_defs)
  have f: "next_fault (world_of [job1]) = None" by (simp add: eval_defs)
  have j: "jobs (world_of [job1]) = [job1]" by (simp add: world_of_def)
  have "\<And>r. code r = 400 \<Longrightarrow> body r = ErrorBody ''job cannot be canceled (already processing or completed)''
       \<Longrightarrow> r = \<lparr>code = 400, body = ErrorBody ''job cannot be canceled (already processing or completed)''\<rparr>"
    by simp
  then show ?thesis
    using h f j CancelJob_unknown_id [OF h, of 700] by simp
qed

text \<open>
  For an id without a row, GET /api/v1/jobs/{id} answers 500 and DELETE answers 400;
  neither answers 404.
\<close>

theorem unknown_id_404_counterexample:
  "code (fst (Handlers_GetJob (Some 7) (world_of [job1]))) = 500
   \<and> code (fst (Handlers_CancelJob (Some 7) 700 (world_of [job1]))) = 400
   \<and> row 7 (world_of [job1]) = None"
  by (simp add: Handlers_GetJob_def GetByID_def Handlers_CancelJob_def CancelJob_def
      logger_def writeError_def writeJSON_def eval_defs)

section \<open>Properties of the queue consumer\<close>

lemma args_differ: "pending_args c \<noteq> fresh_args c"
  by (simp add: pending_args_def fresh_args_def)

lemma parseMessage_not_None: "parseMessage decode m \<noteq> Inr None"
  by (auto simp: parseMessage_def split: option.splits xvalue.splits sum.splits)

lemma first_message_no_streams [simp]:
  "first_message RedisNil = None" "first_message (RedisError e) = None"
  "first_message (RedisStreams []) = None"
  by (simp_all add: first_message_def)

text \<open>
  Claim C8, as the code has it. \<open>Consume\<close> first issues the read of this consumer's own
  pending entries (id "0", block 0), and issues the blocking read of new entries (id
  ">", block = poll timeout) only when the first read brought no message and no
  transport error. It returns no message and no error exactly when the blocking read
  was issued and brought no message and no transport error: the read ran into its
  timeout (\<open>redis.Nil\<close>), or its reply held no stream or no message. A transport error
  of either read is returned as an error.
\<close>

theorem Consume_two_phase:
  "(snd (Consume c client decode) = [pending_args c]
      \<or> snd (Consume c client decode) = [pending_args c, fresh_args c])
   \<and> Block (pending_args c) = 0 \<and> Block (fresh_args c) = pollTimeout c
   \<and> ((fresh_args c \<in> set (snd (Consume c client decode))) =
        (first_message (client (pending_args c)) = None
         \<and> (\<forall>e. client (pending_args c) \<noteq> RedisError e)))
   \<and> ((fst (Consume c client decode) = Inr None) =
        (fresh_args c \<in> set (snd (Consume c client decode))
         \<and> first_message (client (fresh_args c)) = None
         \<and> (\<forall>e. client (fresh_args c) \<noteq> RedisError e)))
   \<and> (\<forall>e. client (pending_args c) = RedisError e \<longrightarrow>
         fst (Consume c client decode) = Inl (''failed to read pending messages: '' @ e))
   \<and> (\<forall>e. fresh_args c \<in> set (snd (Consume c client decode))
            \<and> client (fresh_args c) = RedisError e \<longrightarrow>
         fst (Consume c client decode) = Inl (''failed to read from stream: '' @ e))"
proof -
  have d: "pending_args c \<noteq> fresh_args c" by (rule args_differ)
  have p: "\<And>m. parseMessage decode m \<noteq> Inr None" by (rule parseMessage_not_None)
  show ?thesis
  proof (cases "client (pending_args c)")
    case RedisNil
    then show ?thesis using d p
      by (cases "client (fresh_args c)")
         (auto simp: Consume_def first_message_def pending_args_def fresh_args_def
            split: option.splits list.splits)
  next
    case (RedisError e)
    then show ?thesis using d
      by (auto simp: Consume_def first_message_def pending_args_def fresh_args_def)
  next
    case (RedisStreams ss)
    show ?thesis
    proof (cases "first_message (RedisStreams ss)")
      case None
      then show ?thesis using RedisStreams d p
        by (cases "client (fresh_args c)")
           (auto simp: Consume_def pending_args_def fresh_args_def
              split: option.splits list.splits)
    next
      case (Some m)
      then show ?thesis using RedisStreams d p
        by (auto simp: Consume_def pending_args_def fresh_args_def)
    qed
  qed
qed

theorem Consume_two_phase_witness:
  "first_message (idle_client (pending_args worker_consumer)) = None
   \<and> idle_client (fresh_args worker_consumer) = RedisNil
   \<and> Consume worker_consumer idle_client (\<lambda>s. Inl ''unexpected end of JSON input'')
       = (Inr None, [pending_args worker_consumer, fresh_args worker_consumer])"
proof -
  have a: "first_message (idle_client (pending_args worker_consumer)) = None"
    by (simp add: first_message_def idle_client_def pending_args_def worker_consumer_def)
  have b: "idle_client (fresh_args worker_consumer) = RedisNil"
    by (simp add: idle_client_def fresh_args_def worker_consumer_def)
  have c: "\<forall>e. idle_client (pending_args worker_consumer) \<noteq> RedisError e"
    by (simp add: idle_client_def pending_args_def worker_consumer_def)
  have d: "pending_args worker_consumer \<noteq> fresh_args worker_consumer"
    by (simp add: pending_args_def fresh_args_def)
  show ?thesis
    using a b c d
      Consume_two_phase [of worker_consumer idle_client "\<lambda>s. Inl ''unexpected end of JSON input''"]
    by (auto simp: prod_eq_iff)
qed

text \<open>
  The blocking read answers without error with an empty list of streams, which is no
  timeout, and \<open>Consume\<close> returns no message and no error.
\<close>

theorem Consume_None_counterexample:
  "fst (Consume worker_consumer empty_reply_client (\<lambda>s. Inl ''unexpected end of JSON input''))
     = Inr None
   \<and> empty_reply_client (fresh_args worker_consumer) = RedisStreams []
   \<and> empty_reply_client (fresh_args worker_consumer) \<noteq> RedisNil"
  by (simp add: Consume_def first_message_def empty_reply_client_def pending_args_def
      fresh_args_def worker_consumer_def)


section \<open>Properties of the sweeper\<close>

lemma take_sorted_earliest:
  assumes "sorted (map f ys)" and "s \<in> set (take n ys)" and "j \<in> set ys" and "j \<notin> set (take n ys)"
  shows "f s \<le> f j \<and> length (take n ys) = n"
proof -
  have jd: "j \<in> set (drop n ys)"
    using assms(3,4) by (metis Un_iff append_take_drop_id set_append)
  then have "drop n ys \<noteq> []" by auto
  then have len: "length (take n ys) = n" by simp
  have "sorted (map f (take n ys) @ map f (drop n ys))"
    using assms(1) by (metis append_take_drop_id map_append)
  then have "f s \<le> f j"
    using assms(2) jd by (auto simp: sorted_append)
  then show ?thesis using len by simp
qed

lemma selection:
  assumes "db_faults w = []" and "0 \<le> limit"
    and "fst (GetJobsToCleanup limit now w) = Inr sel"
  shows "sel = take (nat limit) (sort_key (\<lambda>j. the (DeleteAt j)) (filter (expired now) (jobs w)))"
  using assms by (simp add: GetJobsToCleanup_def io_def next_fault_def)

lemma logger_fields [simp]:
  "jobs (logger l m w) = jobs w" "blobs (logger l m w) = blobs w"
  "stream (logger l m w) = stream w" "db_faults (logger l m w) = db_faults w"
  "blob_faults (logger l m w) = blob_faults w" "queue_faults (logger l m w) = queue_faults w"
  "logs (logger l m w) = logs w @ [(l, m)]"
  by (simp_all add: logger_def)

lemma best_effort_delete [simp]:
  "jobs (case Delete key v of (Inl e, w) \<Rightarrow> logger l m w | (Inr u, w) \<Rightarrow> w) = jobs v"
  "db_faults (case Delete key v of (Inl e, w) \<Rightarrow> logger l m w | (Inr u, w) \<Rightarrow> w) = db_faults v"
  "blob_faults (case Delete key v of (Inl e, w) \<Rightarrow> logger l m w | (Inr u, w) \<Rightarrow> w)
     = drop 1 (blob_faults v)"
  "blobs (case Delete key v of (Inl e, w) \<Rightarrow> logger l m w | (Inr u, w) \<Rightarrow> w)
     = (case blob_faults v of Some e # bs \<Rightarrow> blobs v | _ \<Rightarrow> AList.delete key (blobs v))"
  "logs (case Delete key v of (Inl e, w) \<Rightarrow> logger l m w | (Inr u, w) \<Rightarrow> w)
     = (case blob_faults v of Some e # bs \<Rightarrow> logs v @ [(l, m)] | _ \<Rightarrow> logs v)"
  by (simp_all add: Delete_def RemoveObject_def blob_io_def split: list.splits option.splits)

lemma filter_other_ids:
  "filter (\<lambda>j. ID j = k) xs = [] \<Longrightarrow> filter (\<lambda>j. ID j \<noteq> k) xs = xs"
  by (induction xs) (auto split: if_splits)

lemma finish_delete [simp]:
  "blobs (snd (case DeleteJob k v of (Inl e, w) \<Rightarrow> (Some e, w) | (Inr u, w) \<Rightarrow> (None, logger l m w)))
     = blobs v"
  "blob_faults (snd (case DeleteJob k v of (Inl e, w) \<Rightarrow> (Some e, w) | (Inr u, w) \<Rightarrow> (None, logger l m w)))
     = blob_faults v"
  "db_faults (snd (case DeleteJob k v of (Inl e, w) \<Rightarrow> (Some e, w) | (Inr u, w) \<Rightarrow> (None, logger l m w)))
     = drop 1 (db_faults v)"
  "jobs (snd (case DeleteJob k v of (Inl e, w) \<Rightarrow> (Some e, w) | (Inr u, w) \<Rightarrow> (None, logger l m w)))
     = (if next_fault v = None then filter (\<lambda>j. ID j \<noteq> k) (jobs v) else jobs v)"
  by (auto simp: DeleteJob_def io_def filter_other_ids split: option.splits)

lemma finish_delete_logs:
  "set (logs v) \<subseteq>
   set (logs (snd (case DeleteJob k v of (Inl e, w) \<Rightarrow> (Some e, w) | (Inr u, w) \<Rightarrow> (None, logger l m w))))"
  by (auto simp: DeleteJob_def io_def split: option.splits)

lemma cleanupJob_jobs:
  assumes "db_faults w = []"
  shows "jobs (snd (cleanupJob job w)) = filter (\<lambda>j. ID j \<noteq> ID job) (jobs w)
       \<and> db_faults (snd (cleanupJob job w)) = []"
  using assms
  by (simp add: cleanupJob_def next_fault_def Let_def)

lemma cleanupJob_blobs:
  assumes "blob_faults w = []"
  shows "blob_faults (snd (cleanupJob job w)) = []
       \<and> (OriginalKey job \<noteq> [] \<longrightarrow> map_of (blobs (snd (cleanupJob job w))) (OriginalKey job) = None)
       \<and> (ProcessedKey job \<noteq> [] \<longrightarrow> map_of (blobs (snd (cleanupJob job w))) (ProcessedKey job) = None)"
  using assms
  by (simp add: cleanupJob_def Let_def delete_conv)

lemma best_effort_absent:
  "map_of (blobs v) k = None \<Longrightarrow>
   map_of (blobs (case Delete key v of (Inl e, w) \<Rightarrow> logger l m w | (Inr u, w) \<Rightarrow> w)) k = None"
  by (auto simp: delete_conv split: list.splits option.splits)

lemma cleanupJob_absent:
  assumes "map_of (blobs w) k = None"
  shows "map_of (blobs (snd (cleanupJob job w))) k = None"
  using assms
  by (simp add: cleanupJob_def Let_def best_effort_absent del: best_effort_delete(4))

lemma best_effort_logs:
  "logs (case Delete key v of (Inl e, w) \<Rightarrow> logger l m w | (Inr u, w) \<Rightarrow> w)
     = logs v @ (if fault_at 0 (blob_faults v) = None then [] else [(l, m)])"
  by (simp add: fault_at_def split: list.splits option.splits)

lemma finish_delete_log:
  "logs (snd (case DeleteJob k v of (Inl e, w) \<Rightarrow> (Some e, w) | (Inr u, w) \<Rightarrow> (None, logger l m w)))
     = logs v @
       (if fst (case DeleteJob k v of (Inl e, w) \<Rightarrow> (Some e, w) | (Inr u, w) \<Rightarrow> (None, logger l m w)) = None
        then [(l, m)] else [])"
  by (auto simp: DeleteJob_def io_def split: option.splits)

lemma cleanupJob_logs:
  "logs (snd (cleanupJob job v)) =
     logs v
     @ (if OriginalKey job = [] then []
        else (''INFO'', ''deleting original file'')
             # (if fault_at 0 (blob_faults v) = None then []
                else [(''ERROR'', ''failed to delete original file'')]))
     @ (if ProcessedKey job = [] then []
        else (''INFO'', ''deleting processed file'')
             # (if fault_at (if OriginalKey job = [] then 0 else 1) (blob_faults v) = None then []
                else [(''ERROR'', ''failed to delete processed file'')]))
     @ (''INFO'', ''deleting job record'')
     # (if fst (cleanupJob job v) = None then [(''INFO'', ''job cleaned up successfully'')] else [])"
  unfolding cleanupJob_def Let_def finish_delete_log
  by (simp add: best_effort_logs fault_at_drop del: best_effort_delete(5))

lemma cleanupJob_result:
  assumes "db_faults v = []" and "job \<in> set (jobs v)"
  shows "fst (cleanupJob job v) = None"
proof -
  have "filter (\<lambda>j. ID j = ID job) (jobs v) \<noteq> []"
    using assms(2) by (auto simp: filter_empty_conv)
  then show ?thesis
    using assms(1)
    by (simp add: cleanupJob_def Let_def DeleteJob_def io_def next_fault_def
        split: prod.splits sum.splits)
qed

lemma cleanup_loop_step:
  "cleanup_loop (job # rest) w =
     cleanup_loop rest
       (case fst (cleanupJob job w) of
          Some e \<Rightarrow> logger ''ERROR'' ''failed to cleanup job'' (snd (cleanupJob job w))
        | None \<Rightarrow> snd (cleanupJob job w))"
  by (cases "cleanupJob job w") (simp split: option.splits)

lemma cleanup_loop_jobs:
  "db_faults w = [] \<Longrightarrow>
   jobs (cleanup_loop sel w) = filter (\<lambda>j. ID j \<notin> ID ` set sel) (jobs w)"
proof (induction sel arbitrary: w)
  case Nil
  then show ?case by simp
next
  case (Cons job rest)
  let ?v = "case fst (cleanupJob job w) of
              Some e \<Rightarrow> logger ''ERROR'' ''failed to cleanup job'' (snd (cleanupJob job w))
            | None \<Rightarrow> snd (cleanupJob job w)"
  have v: "jobs ?v = filter (\<lambda>j. ID j \<noteq> ID job) (jobs w)" "db_faults ?v = []"
    using cleanupJob_jobs [OF Cons.prems, of job] by (simp_all split: option.splits)
  have "jobs (cleanup_loop rest ?v) = filter (\<lambda>j. ID j \<notin> ID ` set rest) (jobs ?v)"
    by (rule Cons.IH [OF v(2)])
  then show ?case
    unfolding cleanup_loop_step v(1) by (simp add: conj_commute)
qed

lemma cleanup_loop_absent:
  "map_of (blobs w) k = None \<Longrightarrow> map_of (blobs (cleanup_loop sel w)) k = None"
proof (induction sel arbitrary: w)
  case Nil
  then show ?case by simp
next
  case (Cons job rest)
  let ?v = "case fst (cleanupJob job w) of
              Some e \<Rightarrow> logger ''ERROR'' ''failed to cleanup job'' (snd (cleanupJob job w))
            | None \<Rightarrow> snd (cleanupJob job w)"
  have "map_of (blobs ?v) k = None"
    using cleanupJob_absent [OF Cons.prems, of job] by (simp split: option.splits)
  then show ?case
    unfolding cleanup_loop_step by (rule Cons.IH)
qed

lemma cleanup_loop_blobs:
  "blob_faults w = [] \<Longrightarrow> job \<in> set sel \<Longrightarrow>
   (OriginalKey job \<noteq> [] \<longrightarrow> map_of (blobs (cleanup_loop sel w)) (OriginalKey job) = None)
   \<and> (ProcessedKey job \<noteq> [] \<longrightarrow> map_of (blobs (cleanup_loop sel w)) (ProcessedKey job) = None)"
proof (induction sel arbitrary: w)
  case Nil
  then show ?case by simp
next
  case (Cons first rest)
  let ?v = "case fst (cleanupJob first w) of
              Some e \<Rightarrow> logger ''ERROR'' ''failed to cleanup job'' (snd (cleanupJob first w))
            | None \<Rightarrow> snd (cleanupJob first w)"
  have bf: "blob_faults ?v = []"
    using cleanupJob_blobs [OF Cons.prems(1), of first] by (simp split: option.splits)
  show ?case
  proof (cases "job = first")
    case True
    have "(OriginalKey job \<noteq> [] \<longrightarrow> map_of (blobs ?v) (OriginalKey job) = None)
        \<and> (ProcessedKey job \<noteq> [] \<longrightarrow> map_of (blobs ?v) (ProcessedKey job) = None)"
      using cleanupJob_blobs [OF Cons.prems(1), of first] True by (simp split: option.splits)
    then show ?thesis
      unfolding cleanup_loop_step by (simp add: cleanup_loop_absent)
  next
    case False
    then have "job \<in> set rest" using Cons.prems(2) by simp
    then show ?thesis
      unfolding cleanup_loop_step by (rule Cons.IH [OF bf])
  qed
qed

lemma filter_selected:
  assumes "distinct (map ID xs)" and "set sel \<subseteq> set xs"
  shows "filter (\<lambda>j. ID j \<notin> ID ` set sel) xs = filter (\<lambda>j. j \<notin> set sel) xs"
proof (rule filter_cong [OF refl])
  fix j assume j: "j \<in> set xs"
  have "inj_on ID (set xs)" using assms(1) by (simp add: distinct_map)
  then have "(ID j \<in> ID ` set sel) = (j \<in> set sel)"
    using j assms(2) by (auto dest: inj_onD)
  then show "(ID j \<notin> ID ` set sel) = (j \<notin> set sel)" by simp
qed

text \<open>
  Claim C9. With the table respecting its primary key, the database reachable and a
  batch size that is not negative, a sweeper cycle selects at most batch_size rows, all
  of them with delete_at set and before now, in ascending order of delete_at, and a row
  that is due but not selected is no earlier than any selected one and is left out only
  when the batch is full. The cycle ends without error and deletes exactly the selected
  rows from the table, whatever the blob store does. When the blob store is reachable
  the original and the processed blob of every selected row are gone (a key that is
  empty is skipped). For every job and every state of the blob store, the cleanup of the
  job logs exactly this: each of the two blob deletes it attempts, followed by an error
  entry when that delete failed; the delete of the row; and its success when it ends
  without error. A blob delete that fails changes neither the outcome nor the table: with
  the database reachable the row is deleted, and the cleanup of a job that has a row
  ends without error.
\<close>

theorem cleanup_cycle:
  assumes pk: "pk w" and db: "db_faults w = []" and batch: "0 \<le> batchSize wk"
    and sel: "fst (GetJobsToCleanup (batchSize wk) now w) = Inr sel"
  shows "length sel \<le> nat (batchSize wk)
    \<and> (\<forall>j\<in>set sel. j \<in> set (jobs w) \<and> (\<exists>d. DeleteAt j = Some d \<and> d < now))
    \<and> sorted (map (\<lambda>j. the (DeleteAt j)) sel)
    \<and> (\<forall>j\<in>set (jobs w). expired now j \<and> j \<notin> set sel \<longrightarrow>
          length sel = nat (batchSize wk)
          \<and> (\<forall>s\<in>set sel. the (DeleteAt s) \<le> the (DeleteAt j)))
    \<and> fst (cleanup wk now w) = None
    \<and> jobs (snd (cleanup wk now w)) = filter (\<lambda>j. j \<notin> set sel) (jobs w)
    \<and> (blob_faults w = [] \<longrightarrow>
         (\<forall>j\<in>set sel.
            (OriginalKey j \<noteq> [] \<longrightarrow> map_of (blobs (snd (cleanup wk now w))) (OriginalKey j) = None)
            \<and> (ProcessedKey j \<noteq> [] \<longrightarrow> map_of (blobs (snd (cleanup wk now w))) (ProcessedKey j) = None)))
    \<and> (\<forall>job v.
          logs (snd (cleanupJob job v)) =
            logs v
            @ (if OriginalKey job = [] then []
               else (''INFO'', ''deleting original file'')
                    # (if fault_at 0 (blob_faults v) = None then []
                       else [(''ERROR'', ''failed to delete original file'')]))
            @ (if ProcessedKey job = [] then []
               else (''INFO'', ''deleting processed file'')
                    # (if fault_at (if OriginalKey job = [] then 0 else 1) (blob_faults v) = None
                       then []
                       else [(''ERROR'', ''failed to delete processed file'')]))
            @ (''INFO'', ''deleting job record'')
            # (if fst (cleanupJob job v) = None
               then [(''INFO'', ''job cleaned up successfully'')] else []))
    \<and> (\<forall>job v. db_faults v = [] \<longrightarrow>
          jobs (snd (cleanupJob job v)) = filter (\<lambda>j. ID j \<noteq> ID job) (jobs v)
          \<and> (job \<in> set (jobs v) \<longrightarrow> fst (cleanupJob job v) = None))"
proof -
  let ?f = "\<lambda>j. the (DeleteAt j)"
  let ?ys = "sort_key ?f (filter (expired now) (jobs w))"
  let ?n = "nat (batchSize wk)"
  have s: "sel = take ?n ?ys" by (rule selection [OF db batch sel])
  have A: "length sel \<le> ?n" by (simp add: s)
  have sub: "set sel \<subseteq> set ?ys" unfolding s by (rule set_take_subset)
  have B: "\<forall>j\<in>set sel. j \<in> set (jobs w) \<and> (\<exists>d. DeleteAt j = Some d \<and> d < now)"
    using sub by (auto simp: expired_def split: option.splits)
  have sorted_ys: "sorted (map ?f ?ys)" by (rule sorted_sort_key)
  have C: "sorted (map ?f sel)"
    unfolding s take_map [symmetric] by (rule sorted_wrt_take [OF sorted_ys])
  have D: "\<forall>j\<in>set (jobs w). expired now j \<and> j \<notin> set sel \<longrightarrow>
             length sel = ?n \<and> (\<forall>s\<in>set sel. ?f s \<le> ?f j)"
  proof (intro ballI impI)
    fix j assume j: "j \<in> set (jobs w)" and e: "expired now j \<and> j \<notin> set sel"
    then have jy: "j \<in> set ?ys" by simp
    have "\<And>x. x \<in> set sel \<Longrightarrow> ?f x \<le> ?f j \<and> length sel = ?n"
      using take_sorted_earliest [OF sorted_ys _ jy] e unfolding s by blast
    moreover have "length sel = ?n"
    proof -
      have "j \<in> set (drop ?n ?ys)"
        using jy e unfolding s by (metis Un_iff append_take_drop_id set_append)
      then have "drop ?n ?ys \<noteq> []" by auto
      then show ?thesis unfolding s by simp
    qed
    ultimately show "length sel = ?n \<and> (\<forall>s\<in>set sel. ?f s \<le> ?f j)" by blast
  qed
  let ?w0 = "logger ''INFO'' ''starting cleanup cycle'' w"
  have get: "GetJobsToCleanup (batchSize wk) now ?w0 = (Inr sel, ?w0\<lparr>db_faults := []\<rparr>)"
    using db batch s by (simp add: GetJobsToCleanup_def io_def next_fault_def)
  let ?w1 = "?w0\<lparr>db_faults := []\<rparr>"
  have w1: "jobs ?w1 = jobs w" "db_faults ?w1 = []" "blob_faults ?w1 = blob_faults w"
    by simp_all
  have E: "fst (cleanup wk now w) = None"
    by (simp add: cleanup_def get)
  have selsub: "set sel \<subseteq> set (jobs w)" using B by blast
  have F: "jobs (snd (cleanup wk now w)) = filter (\<lambda>j. j \<notin> set sel) (jobs w)"
  proof (cases "sel = []")
    case True
    then show ?thesis by (simp add: cleanup_def get)
  next
    case False
    have "jobs (snd (cleanup wk now w))
            = jobs (cleanup_loop sel (logger ''INFO'' ''found jobs to cleanup'' ?w1))"
      using False by (simp add: cleanup_def get)
    also have "\<dots> = filter (\<lambda>j. ID j \<notin> ID ` set sel) (jobs w)"
      by (subst cleanup_loop_jobs) simp_all
    also have "\<dots> = filter (\<lambda>j. j \<notin> set sel) (jobs w)"
      using pk selsub by (simp add: pk_def filter_selected)
    finally show ?thesis .
  qed
  have G: "(OriginalKey j \<noteq> [] \<longrightarrow> map_of (blobs (snd (cleanup wk now w))) (OriginalKey j) = None)
         \<and> (ProcessedKey j \<noteq> [] \<longrightarrow> map_of (blobs (snd (cleanup wk now w))) (ProcessedKey j) = None)"
    if bf: "blob_faults w = []" and j: "j \<in> set sel" for j
  proof -
    have ne: "sel \<noteq> []" using j by auto
    have bl: "blobs (snd (cleanup wk now w))
            = blobs (cleanup_loop sel (logger ''INFO'' ''found jobs to cleanup'' ?w1))"
      using ne by (simp add: cleanup_def get)
    have "blob_faults (logger ''INFO'' ''found jobs to cleanup'' ?w1) = []"
      using bf by simp
    from cleanup_loop_blobs [OF this j] show ?thesis unfolding bl .
  qed
  have H: "\<forall>job v. db_faults v = [] \<longrightarrow>
          jobs (snd (cleanupJob job v)) = filter (\<lambda>j. ID j \<noteq> ID job) (jobs v)
          \<and> (job \<in> set (jobs v) \<longrightarrow> fst (cleanupJob job v) = None)"
    using cleanupJob_result cleanupJob_jobs by blast
  have ABCD: "length sel \<le> ?n
    \<and> (\<forall>j\<in>set sel. j \<in> set (jobs w) \<and> (\<exists>d. DeleteAt j = Some d \<and> d < now))
    \<and> sorted (map ?f sel)
    \<and> (\<forall>j\<in>set (jobs w). expired now j \<and> j \<notin> set sel \<longrightarrow>
          length sel = ?n \<and> (\<forall>s\<in>set sel. ?f s \<le> ?f j))"
    using A B C D by blast
  have G': "blob_faults w = [] \<longrightarrow>
         (\<forall>j\<in>set sel.
            (OriginalKey j \<noteq> [] \<longrightarrow> map_of (blobs (snd (cleanup wk now w))) (OriginalKey j) = None)
            \<and> (ProcessedKey j \<noteq> [] \<longrightarrow> map_of (blobs (snd (cleanup wk now w))) (ProcessedKey j) = None))"
    using G by blast
  show ?thesis
    apply (intro conjI allI)
    using ABCD apply blast
    using ABCD apply blast
    using ABCD apply blast
    using ABCD apply blast
    apply (rule E)
    apply (rule F)
    apply (rule G')
    apply (rule cleanupJob_logs)
    using H apply blast
    done
qed

theorem cleanup_cycle_witness:
  "pk sweep_world \<and> db_faults sweep_world = []
   \<and> (0::int) \<le> batchSize \<lparr>interval = 300000000000, batchSize = 1\<rparr>
   \<and> fst (GetJobsToCleanup 1 100 sweep_world)
       = Inr [job1\<lparr>ID := 2, Status := JobStatusCompleted, OriginalKey := ''users/u/original/2/dog.png'',
                    ProcessedKey := ''processed/2/dog.png'', DeleteAt := Some 30\<rparr>]
   \<and> jobs (snd (cleanup \<lparr>interval = 300000000000, batchSize = 1\<rparr> 100 sweep_world))
       = [job1\<lparr>Status := JobStatusCompleted, DeleteAt := Some 50\<rparr>, job1\<lparr>ID := 3\<rparr>]
   \<and> logs (snd (cleanupJob
         (job1\<lparr>ID := 2, Status := JobStatusCompleted, OriginalKey := ''users/u/original/2/dog.png'',
                ProcessedKey := ''processed/2/dog.png'', DeleteAt := Some 30\<rparr>) sweep_world))
       = [(''INFO'', ''deleting original file''), (''ERROR'', ''failed to delete original file''),
          (''INFO'', ''deleting processed file''), (''INFO'', ''deleting job record''),
          (''INFO'', ''job cleaned up successfully'')]"
proof -
  let ?wk = "\<lparr>interval = 300000000000, batchSize = 1\<rparr>"
  let ?b = "job1\<lparr>ID := 2, Status := JobStatusCompleted, OriginalKey := ''users/u/original/2/dog.png'',
                    ProcessedKey := ''processed/2/dog.png'', DeleteAt := Some 30\<rparr>"
  have h1: "pk sweep_world" by (simp add: sweep_world_def eval_defs)
  have h2: "db_faults sweep_world = []" by (simp add: sweep_world_def eval_defs)
  have h3: "(0::int) \<le> batchSize ?wk" by simp
  have h4: "fst (GetJobsToCleanup (batchSize ?wk) 100 sweep_world) = Inr [?b]"
    by (simp add: GetJobsToCleanup_def expired_def sweep_world_def eval_defs)
  have j: "filter (\<lambda>j. j \<notin> set [?b]) (jobs sweep_world)
            = [job1\<lparr>Status := JobStatusCompleted, DeleteAt := Some 50\<rparr>, job1\<lparr>ID := 3\<rparr>]"
    by (simp add: sweep_world_def eval_defs)
  have m: "?b \<in> set (jobs sweep_world)" by (simp add: sweep_world_def eval_defs)
  have k: "OriginalKey ?b \<noteq> []" "ProcessedKey ?b \<noteq> []" by (simp_all add: eval_defs)
  have f: "fault_at 0 (blob_faults sweep_world) = Some ''connection refused''"
    "fault_at 1 (blob_faults sweep_world) = None" "logs sweep_world = []"
    by (simp_all add: sweep_world_def eval_defs fault_at_def)
  note c = cleanup_cycle [OF h1 h2 h3 h4]
  have l: "logs (snd (cleanupJob ?b sweep_world))
       = [(''INFO'', ''deleting original file''), (''ERROR'', ''failed to delete original file''),
          (''INFO'', ''deleting processed file''), (''INFO'', ''deleting job record''),
          (''INFO'', ''job cleaned up successfully'')]"
    using c h2 m k f by simp
  show ?thesis
    using h1 h2 h3 h4 j l c by simp
qed

section \<open>Progress\<close>

lemma keeps_refl [simp]: "keeps j j"
  by (simp add: keeps_def)

lemma keeps_trans: "keeps a b \<Longrightarrow> keeps b c \<Longrightarrow> keeps a c"
  by (auto simp: keeps_def)

lemma keeps_advances: "keeps a b \<Longrightarrow> advances jid b c \<Longrightarrow> advances jid a c"
  by (auto simp: keeps_def advances_def)

lemma preserves_refl [simp]: "preserves w w"
  by (simp add: preserves_def list_all2_refl)

lemma preserves_trans: "preserves a b \<Longrightarrow> preserves b c \<Longrightarrow> preserves a c"
  unfolding preserves_def by (rule list_all2_trans [OF keeps_trans])

lemma preserves_same: "jobs v' = jobs v \<Longrightarrow> preserves w v \<Longrightarrow> preserves w v'"
  by (simp add: preserves_def)

lemma preserves_logger: "preserves w v \<Longrightarrow> preserves w (logger l m v)"
  by (simp add: preserves_def)

lemma preserves_updates: "preserves w v \<Longrightarrow> updates jid w v"
  unfolding preserves_def updates_def
  by (erule list_all2_mono) (simp add: advances_def)

lemma updates_after: "preserves w v \<Longrightarrow> updates jid v v' \<Longrightarrow> updates jid w v'"
  unfolding preserves_def updates_def by (rule list_all2_trans [OF keeps_advances])

lemma updates_logger: "updates jid w v \<Longrightarrow> updates jid w (logger l m v)"
  by (simp add: updates_def)

lemma exec_update_preserves:
  assumes "\<And>j. keeps j (u j)" and "preserves w v"
  shows "preserves w (snd (exec_update c u now v))"
proof -
  have "list_all2 keeps (jobs v) (map (\<lambda>j. if c j then (u j)\<lparr>UpdatedAt := now\<rparr> else j) (jobs v))"
    using assms(1) by (simp add: list_all2_map2 list_all2_same keeps_def)
  then have "preserves v (snd (exec_update c u now v))"
    by (cases "next_fault v") (simp_all add: exec_update_def io_def preserves_def list_all2_refl)
  with assms(2) show ?thesis by (rule preserves_trans)
qed

lemma exec_update_updates:
  assumes "\<And>j. c j \<Longrightarrow> advances jid j ((u j)\<lparr>UpdatedAt := now\<rparr>)"
  shows "updates jid v (snd (exec_update c u now v))"
proof -
  have "list_all2 (advances jid) (jobs v)
          (map (\<lambda>j. if c j then (u j)\<lparr>UpdatedAt := now\<rparr> else j) (jobs v))"
    using assms by (simp add: list_all2_map2 list_all2_same advances_def)
  then show ?thesis
    by (cases "next_fault v")
      (simp_all add: exec_update_def io_def updates_def advances_def list_all2_same)
qed

lemma snd_UpdateStatus: "snd (UpdateStatus jid st now v)
    = snd (exec_update (\<lambda>j. ID j = jid) (\<lambda>j. j\<lparr>Status := st\<rparr>) now v)"
  by (simp add: UpdateStatus_def split: prod.splits sum.splits)

lemma snd_StartProcessing: "snd (StartProcessing jid wid now v)
    = snd (exec_update (\<lambda>j. ID j = jid)
        (\<lambda>j. j\<lparr>Status := JobStatusProcessing, WorkerID := wid, StartedAt := Some now\<rparr>) now v)"
  by (simp add: StartProcessing_def split: prod.splits sum.splits)

lemma snd_FailJob: "snd (FailJob jid msg now v)
    = snd (exec_update (\<lambda>j. ID j = jid)
        (\<lambda>j. j\<lparr>Status := JobStatusFailed, Error := msg, CompletedAt := Some now\<rparr>) now v)"
  by (simp add: FailJob_def split: prod.splits sum.splits)

lemma snd_CancelJob: "snd (CancelJob jid now v)
    = snd (exec_update (\<lambda>j. ID j = jid \<and> (Status j = JobStatusPending \<or> Status j = JobStatusQueued))
        (\<lambda>j. j\<lparr>Status := JobStatusCancelled\<rparr>) now v)"
  by (simp add: CancelJob_def split: prod.splits sum.splits)

lemma preserves_UpdateStatus:
  "st \<noteq> JobStatusCompleted \<Longrightarrow> preserves w v \<Longrightarrow> preserves w (snd (UpdateStatus jid st now v))"
  unfolding snd_UpdateStatus by (rule exec_update_preserves) (simp_all add: keeps_def)

lemma preserves_StartProcessing: "preserves w v \<Longrightarrow> preserves w (snd (StartProcessing jid wid now v))"
  unfolding snd_StartProcessing by (rule exec_update_preserves) (simp_all add: keeps_def)

lemma preserves_FailJob: "preserves w v \<Longrightarrow> preserves w (snd (FailJob jid msg now v))"
  unfolding snd_FailJob by (rule exec_update_preserves) (simp_all add: keeps_def)

lemma preserves_CancelJob: "preserves w v \<Longrightarrow> preserves w (snd (CancelJob jid now v))"
  unfolding snd_CancelJob by (rule exec_update_preserves) (simp_all add: keeps_def)

lemma exec_update_Progress:
  assumes "\<And>j. Progress (u j) = Progress j"
  shows "map Progress (jobs (snd (exec_update c u now v))) = map Progress (jobs v)"
  using assms by (cases "next_fault v") (simp_all add: exec_update_def io_def comp_def if_distrib)

lemma writers_keep_progress:
  "map Progress (jobs (snd (UpdateStatus jid st now v))) = map Progress (jobs v)"
  "map Progress (jobs (snd (StartProcessing jid wid now v))) = map Progress (jobs v)"
  "map Progress (jobs (snd (FailJob jid msg now v))) = map Progress (jobs v)"
  "map Progress (jobs (snd (CancelJob jid now v))) = map Progress (jobs v)"
  unfolding snd_UpdateStatus snd_StartProcessing snd_FailJob snd_CancelJob
  by (simp_all add: exec_update_Progress)

lemma CompleteJob_row:
  assumes "CompleteJob jid key hours now v = (Inr u, v')"
  shows "jid \<in> ID ` set (jobs v)
       \<and> list_all2 (\<lambda>j j'. if ID j = jid
                            then ID j' = jid \<and> Progress j' = 100 \<and> Status j' = JobStatusCompleted
                            else j' = j) (jobs v) (jobs v')"
proof -
  from assms obtain r where f: "find (\<lambda>j. ID j = jid) (jobs v) = Some r"
    by (auto simp: CompleteJob_def io_def split: option.splits)
  then have "jid \<in> ID ` set (jobs v)"
    by (auto simp: find_Some_iff)
  moreover have "list_all2 (\<lambda>j j'. if ID j = jid
                            then ID j' = jid \<and> Progress j' = 100 \<and> Status j' = JobStatusCompleted
                            else j' = j) (jobs v) (jobs v')"
    using assms f
    by (auto simp: CompleteJob_def io_def exec_update_def Let_def list_all2_map2 list_all2_same
        split: option.splits)
  ultimately show ?thesis by simp
qed

lemma updates_CompleteJob:
  assumes "preserves w v"
  shows "updates jid w (snd (CompleteJob jid key hours now v))"
proof -
  let ?v1 = "v\<lparr>db_faults := drop 1 (db_faults v)\<rparr>"
  have v1: "preserves w ?v1" using assms by (simp add: preserves_def)
  show ?thesis
  proof (cases "next_fault v")
    case (Some e)
    then show ?thesis using v1 by (simp add: CompleteJob_def io_def preserves_updates)
  next
    case None
    show ?thesis
    proof (cases "find (\<lambda>j. ID j = jid) (jobs v)")
      case no_row: None
      then show ?thesis using v1 None by (simp add: CompleteJob_def io_def preserves_updates)
    next
      case (Some r)
      let ?u = "\<lambda>j. j\<lparr>Status := JobStatusCompleted, ProcessedKey := key, Progress := 100,
                  CompletedAt := Some now,
                  ProcessingTime := Some (case StartedAt r of
                      Some startedAt \<Rightarrow> Milliseconds (Time_Sub now startedAt) | None \<Rightarrow> 0),
                  DeleteAt := Some (Time_Add now (hours * Hour))\<rparr>"
      have "snd (CompleteJob jid key hours now v) = snd (exec_update (\<lambda>j. ID j = jid) ?u now ?v1)"
        using None Some by (simp add: CompleteJob_def io_def Let_def split: prod.splits sum.splits)
      moreover have "updates jid ?v1 (snd (exec_update (\<lambda>j. ID j = jid) ?u now ?v1))"
        by (rule exec_update_updates) (simp add: advances_def)
      ultimately show ?thesis using updates_after [OF v1] by simp
    qed
  qed
qed

lemma jobs_GetByID [simp]: "jobs (snd (GetByID jid v)) = jobs v"
  by (simp add: GetByID_def io_def split: option.splits)

lemma jobs_Download [simp]: "jobs (snd (Download key v)) = jobs v"
  by (simp add: Download_def GetObject_def blob_io_def split: option.splits)

lemma jobs_Object_Read [simp]: "jobs (snd (Object_Read obj v)) = jobs v"
  by (simp add: Object_Read_def blob_io_def split: option.splits)

lemma jobs_Upload [simp]: "jobs (snd (Upload key c sz t v)) = jobs v"
  by (simp add: Upload_def PutObject_def blob_io_def split: option.splits)

lemma jobs_Enqueue [simp]: "jobs (snd (Enqueue msg v)) = jobs v"
  by (simp add: Enqueue_def queue_io_def split: option.splits)

text \<open>The same facts for a call whose outcome has been named.\<close>

lemma named:
  "GetByID jid v = (r1, v') \<Longrightarrow> preserves w v \<Longrightarrow> preserves w v'"
  "Download key v = (r2, v') \<Longrightarrow> preserves w v \<Longrightarrow> preserves w v'"
  "Object_Read obj v = (r3, v') \<Longrightarrow> preserves w v \<Longrightarrow> preserves w v'"
  "Upload key c sz t v = (r4, v') \<Longrightarrow> preserves w v \<Longrightarrow> preserves w v'"
  "StartProcessing jid wid now v = (r5, v') \<Longrightarrow> preserves w v \<Longrightarrow> preserves w v'"
  "CancelJob jid now v = (r6, v') \<Longrightarrow> preserves w v \<Longrightarrow> preserves w v'"
  using preserves_same [OF jobs_GetByID, of w v jid] preserves_same [OF jobs_Download, of w v key]
    preserves_same [OF jobs_Object_Read, of w v obj] preserves_same [OF jobs_Upload, of w v key c sz t]
    preserves_StartProcessing [of w v jid wid now] preserves_CancelJob [of w v jid now]
  by auto

lemma named_complete:
  "CompleteJob jid k hours now v = (r, v') \<Longrightarrow> preserves w v \<Longrightarrow> updates jid w v'"
  using updates_CompleteJob [of w v jid k hours now] by simp

lemma processJob_updates: "updates (JobID (MsgJob msg)) w (snd (processJob wid process msg now fin w))"
  unfolding processJob_def Let_def
  apply (auto split: prod.splits sum.splits option.splits)
  apply ((erule named_complete | rule updates_logger | rule preserves_updates
         | erule named | rule preserves_logger preserves_refl preserves_FailJob)+)
  done

lemma Handlers_GetJob_preserves: "preserves w (snd (Handlers_GetJob idStr w))"
  unfolding Handlers_GetJob_def
  by (auto split: prod.splits sum.splits option.splits intro!: preserves_logger intro: named)

lemma Handlers_CancelJob_preserves: "preserves w (snd (Handlers_CancelJob idStr now w))"
  unfolding Handlers_CancelJob_def
  by (auto split: prod.splits sum.splits option.splits intro!: preserves_logger intro: named)

lemma appends_refl [simp]: "appends w w"
  by (simp add: appends_def)

lemma appends_preserves:
  assumes "appends w v" and "preserves v v'"
  shows "appends w v'"
proof -
  have t: "list_all2 keeps xs (jobs v')" if "list_all2 keeps xs (jobs v)" for xs
    by (rule list_all2_trans [OF keeps_trans that assms(2) [unfolded preserves_def]])
  show ?thesis
    using assms(1) unfolding appends_def preserves_def by (blast intro: t)
qed

lemma appends_logger: "appends w v \<Longrightarrow> appends w (logger l m v)"
  by (simp add: appends_def preserves_def)

lemma Create_new_row:
  "Create job v = (Inr u, v') \<Longrightarrow>
   \<exists>new. jobs v' = jobs v @ [new] \<and> ID new = ID job \<and> Progress new = 0
         \<and> Status new = Status job \<and> ID job \<notin> ID ` set (jobs v)"
  by (auto simp: Create_def io_def split: option.splits if_splits)

lemma Create_failed: "Create job v = (Inl e, v') \<Longrightarrow> jobs v' = jobs v"
  by (auto simp: Create_def io_def split: option.splits if_splits)

lemma Create_appends:
  assumes "Create job v = (r, v')" and "jobs v = jobs w" and "Status job \<noteq> JobStatusCompleted"
  shows "appends w v'"
proof (cases r)
  case (Inl e)
  then show ?thesis
    using Create_failed assms by (simp add: appends_def preserves_def list_all2_refl)
next
  case (Inr u)
  then obtain new where "jobs v' = jobs v @ [new]" "Progress new = 0" "ID job \<notin> ID ` set (jobs v)"
    "ID new = ID job" "Status new = Status job"
    using Create_new_row assms(1) by blast
  then show ?thesis
    using assms(2,3) unfolding appends_def
    by (intro disjI2 exI [of _ new]) (simp add: list_all2_refl)
qed

lemma Upload_jobs: "Upload key c sz t v = (r, v') \<Longrightarrow> jobs v' = jobs v"
  using jobs_Upload [of key c sz t v] by simp

lemma named_appends:
  "UpdateStatus jid st now v = (r1, v') \<Longrightarrow> st \<noteq> JobStatusCompleted \<Longrightarrow> appends w v \<Longrightarrow> appends w v'"
  "Enqueue msg v = (r2, v') \<Longrightarrow> appends w v \<Longrightarrow> appends w v'"
  using appends_preserves [of w v "snd (UpdateStatus jid st now v)"]
    preserves_UpdateStatus [of st v v jid now]
    appends_preserves [of w v "snd (Enqueue msg v)"] preserves_same [OF jobs_Enqueue, of v v msg]
  by auto

lemma Upload_failed_appends: "Upload key c sz t w = (r, v') \<Longrightarrow> appends w v'"
  using Upload_jobs [of key c sz t w r v'] by (simp add: appends_def preserves_def list_all2_refl)

lemma appends_logger_iff [simp]: "appends w (logger l m v) = appends w v"
  by (simp add: appends_def preserves_def)

lemma create_tail:
  assumes "Status job \<noteq> JobStatusCompleted" and "st \<noteq> JobStatusCompleted"
    and "st' \<noteq> JobStatusCompleted"
  shows "appends w
     (snd (case Upload key content sz ct w of
             (Inl e, w1) \<Rightarrow> (a, logger l1 m1 w1)
           | (Inr u, w1) \<Rightarrow>
               (case Create job w1 of
                  (Inl e, w2) \<Rightarrow> (b, logger l2 m2 w2)
                | (Inr u, w2) \<Rightarrow>
                    (case Enqueue msg
                            (case UpdateStatus jid st now w2 of
                               (Inl e, w3) \<Rightarrow> logger l3 m3 w3
                             | (Inr u, w3) \<Rightarrow> w3) of
                       (Inl e, w4) \<Rightarrow>
                         (c, case UpdateStatus jid' st' now' (logger l4 m4 w4) of
                               (Inl e, w6) \<Rightarrow> logger l5 m5 w6
                             | (Inr u, w6) \<Rightarrow> w6)
                     | (Inr u, w4) \<Rightarrow> (d, logger l6 m6 w4)))))"
proof -
  obtain r1 w1 where up: "Upload key content sz ct w = (r1, w1)"
    by (cases "Upload key content sz ct w")
  obtain r2 w2 where cr: "Create job w1 = (r2, w2)"
    by (cases "Create job w1")
  obtain r3 v3 where us: "UpdateStatus jid st now w2 = (r3, v3)"
    by (cases "UpdateStatus jid st now w2")
  let ?w3 = "case r3 of Inl e \<Rightarrow> logger l3 m3 v3 | Inr u \<Rightarrow> v3"
  obtain r4 w4 where en: "Enqueue msg ?w3 = (r4, w4)"
    by (cases "Enqueue msg ?w3")
  obtain r5 v5 where rv: "UpdateStatus jid' st' now' (logger l4 m4 w4) = (r5, v5)"
    by (cases "UpdateStatus jid' st' now' (logger l4 m4 w4)")
  have a1: "appends w w1" by (rule Upload_failed_appends [OF up])
  have a2: "appends w w2" by (rule Create_appends [OF cr Upload_jobs [OF up] assms(1)])
  have a3: "appends w v3" by (rule named_appends(1) [OF us assms(2) a2])
  have a3': "appends w ?w3" using a3 by (cases r3) simp_all
  have a4: "appends w w4" by (rule named_appends(2) [OF en a3'])
  have a5: "appends w v5" by (rule named_appends(1) [OF rv assms(3)]) (simp add: a4)
  show ?thesis
    using up cr us en rv a1 a2 a3 a4 a5
    by (cases r1; cases r2; cases r3; cases r4; cases r5) simp_all
qed

lemma Handlers_CreateJob_appends:
  "appends w (snd (Handlers_CreateJob unicodeLower fresh now r w))"
proof (cases "form_error r")
  case (Some e)
  then show ?thesis by (simp add: Handlers_CreateJob_def)
next
  case None
  show ?thesis
  proof (cases "image r")
    case no_image: None
    then show ?thesis using None by (simp add: Handlers_CreateJob_def)
  next
    case (Some header)
    show ?thesis
      unfolding Handlers_CreateJob_def Let_def using None Some
      by (simp add: create_tail NewJob_def split: option.splits operations_field.splits)
  qed
qed

lemma removes_refl [simp]: "removes w w"
  unfolding removes_def by (rule exI [of _ "\<lambda>j. True"]) simp

lemma removes_trans:
  assumes "removes a b" and "removes b c"
  shows "removes a c"
proof -
  obtain P Q where "jobs b = filter P (jobs a)" "jobs c = filter Q (jobs b)"
    using assms unfolding removes_def by blast
  then have "jobs c = filter (\<lambda>x. P x \<and> Q x) (jobs a)" by simp
  then show ?thesis unfolding removes_def by (intro exI [of _ "\<lambda>x. P x \<and> Q x"])
qed

lemma removes_same: "jobs v' = jobs v \<Longrightarrow> removes w v \<Longrightarrow> removes w v'"
  by (simp add: removes_def)

lemma cleanupJob_removes: "removes v (snd (cleanupJob job v))"
proof -
  have "jobs (snd (cleanupJob job v)) = jobs v
      \<or> jobs (snd (cleanupJob job v)) = filter (\<lambda>j. ID j \<noteq> ID job) (jobs v)"
    by (simp add: cleanupJob_def Let_def next_fault_def)
  then show ?thesis
  proof
    assume "jobs (snd (cleanupJob job v)) = jobs v"
    then show ?thesis unfolding removes_def by (intro exI [of _ "\<lambda>j. True"]) simp
  next
    assume "jobs (snd (cleanupJob job v)) = filter (\<lambda>j. ID j \<noteq> ID job) (jobs v)"
    then show ?thesis unfolding removes_def by (intro exI [of _ "\<lambda>j. ID j \<noteq> ID job"])
  qed
qed

lemma cleanup_loop_removes: "removes w (cleanup_loop sel w)"
proof (induction sel arbitrary: w)
  case Nil
  then show ?case by simp
next
  case (Cons job rest)
  let ?v = "case fst (cleanupJob job w) of
              Some e \<Rightarrow> logger ''ERROR'' ''failed to cleanup job'' (snd (cleanupJob job w))
            | None \<Rightarrow> snd (cleanupJob job w)"
  have "removes w ?v"
    using cleanupJob_removes [of w job] by (simp add: removes_def split: option.splits)
  then show ?case
    unfolding cleanup_loop_step using Cons.IH [of ?v] by (rule removes_trans)
qed

lemma jobs_GetJobsToCleanup [simp]: "jobs (snd (GetJobsToCleanup limit now v)) = jobs v"
  by (simp add: GetJobsToCleanup_def io_def split: option.splits)

lemma cleanup_removes: "removes w (snd (cleanup wk now w))"
proof -
  let ?w0 = "logger ''INFO'' ''starting cleanup cycle'' w"
  obtain r w1 where g: "GetJobsToCleanup (batchSize wk) now ?w0 = (r, w1)"
    by (cases "GetJobsToCleanup (batchSize wk) now ?w0")
  have j1: "jobs w1 = jobs w"
    using jobs_GetJobsToCleanup [of "batchSize wk" now ?w0] g by simp
  have r1: "removes w w1" by (simp add: removes_same [OF j1])
  have r2: "removes w (logger l m (cleanup_loop sel (logger l' m' w1)))" for l m l' m' sel
  proof -
    have "removes w (logger l' m' w1)" using r1 by (simp add: removes_def)
    then have "removes w (cleanup_loop sel (logger l' m' w1))"
      using cleanup_loop_removes by (rule removes_trans)
    then show ?thesis by (simp add: removes_def)
  qed
  have r3: "removes w (logger l m w1)" for l m
    using r1 by (simp add: removes_def)
  show ?thesis
    using g r1 r2 r3 by (cases r) (simp_all add: cleanup_def)
qed

subsection \<open>What each component does to progress\<close>

lemma kept_rows:
  "list_all2 keeps xs ys \<Longrightarrow> map Progress ys = map Progress xs \<and> map ID ys = map ID xs"
  by (induction rule: list_all2_induct) (auto simp: keeps_def)

lemma appends_Progress:
  assumes "appends w w'"
  shows "map Progress (jobs w') = map Progress (jobs w)
       \<or> map Progress (jobs w') = map Progress (jobs w) @ [0]"
proof -
  from assms consider "list_all2 keeps (jobs w) (jobs w')"
    | new where "Progress new = 0" "list_all2 keeps (jobs w @ [new]) (jobs w')"
    unfolding appends_def preserves_def by blast
  then show ?thesis
  proof cases
    case 1
    then show ?thesis using kept_rows by blast
  next
    case 2
    then show ?thesis using kept_rows [OF 2(2)] by simp
  qed
qed

lemma processJob_rows:
  "list_all2 (\<lambda>j j'. ID j' = ID j \<and>
       (Progress j' = Progress j \<or>
        ID j = JobID (MsgJob msg) \<and> Progress j' = 100 \<and> Status j' = JobStatusCompleted))
     (jobs w) (jobs (snd (processJob wid process msg now fin w)))"
proof -
  have "list_all2 (advances (JobID (MsgJob msg))) (jobs w)
          (jobs (snd (processJob wid process msg now fin w)))"
    using processJob_updates [of msg w wid process now fin] by (simp only: updates_def)
  then show ?thesis
  proof (rule list_all2_mono)
    fix j j'
    assume "advances (JobID (MsgJob msg)) j j'"
    then show "ID j' = ID j \<and>
       (Progress j' = Progress j \<or>
        ID j = JobID (MsgJob msg) \<and> Progress j' = 100 \<and> Status j' = JobStatusCompleted)"
      by (auto simp: advances_def keeps_def)
  qed
qed

subsection \<open>The invariant\<close>

lemma advances_ok: "advances jid x y \<Longrightarrow> ID y = ID x \<and> (progress_ok x \<longrightarrow> progress_ok y)"
  unfolding advances_def keeps_def progress_ok_def by auto

lemma advanced_rows:
  "list_all2 (advances jid) xs ys \<Longrightarrow>
   map ID ys = map ID xs \<and> ((\<forall>x\<in>set xs. progress_ok x) \<longrightarrow> (\<forall>y\<in>set ys. progress_ok y))"
proof (induction rule: list_all2_induct)
  case Nil
  then show ?case by simp
next
  case (Cons x xs y ys)
  then show ?case using advances_ok [OF Cons.hyps(1)] by simp
qed

lemma advanced_row:
  "list_all2 (advances jid) xs ys \<Longrightarrow> find (\<lambda>j. ID j = k) ys = Some b \<Longrightarrow>
   \<exists>a. find (\<lambda>j. ID j = k) xs = Some a \<and> advances jid a b"
proof (induction rule: list_all2_induct)
  case Nil
  then show ?case by simp
next
  case (Cons x xs y ys)
  have "ID y = ID x" using advances_ok [OF Cons.hyps(1)] by simp
  then show ?case using Cons by (cases "ID x = k") simp_all
qed

lemma kept_advanced: "list_all2 keeps xs ys \<Longrightarrow> list_all2 (advances jid) xs ys"
  by (erule list_all2_mono) (simp add: advances_def)

lemma inv_updates:
  assumes "inv w" and "updates jid w w'"
  shows "inv w'"
  using advanced_rows [OF assms(2) [unfolded updates_def]] assms(1)
  by (simp add: inv_def pk_def)

lemma find_in_prefix:
  "find P xs = Some x \<Longrightarrow> find P (xs @ ys) = Some x"
  by (induction xs) (auto split: if_splits)

lemma inv_appends:
  assumes "inv w" and "appends w w'"
  shows "inv w'"
proof -
  from assms(2) consider "preserves w w'"
    | new where "Progress new = 0" "Status new \<noteq> JobStatusCompleted" "ID new \<notin> ID ` set (jobs w)"
        "list_all2 keeps (jobs w @ [new]) (jobs w')"
    unfolding appends_def by blast
  then show ?thesis
  proof cases
    case 1
    then show ?thesis using assms(1) inv_updates preserves_updates by blast
  next
    case 2
    have ok: "\<forall>x\<in>set (jobs w @ [new]). progress_ok x"
      using assms(1) 2(1,2) by (auto simp: inv_def progress_ok_def)
    have d: "distinct (map ID (jobs w @ [new]))"
      using assms(1) 2(3) by (simp add: inv_def pk_def)
    show ?thesis
      using advanced_rows [OF kept_advanced [OF 2(4)]] ok d by (simp add: inv_def pk_def)
  qed
qed

lemma inv_removes: "inv w \<Longrightarrow> removes w w' \<Longrightarrow> inv w'"
  by (auto simp: inv_def pk_def removes_def distinct_map_filter)

lemma step_kinds: "step w w' \<Longrightarrow> (\<exists>jid. updates jid w w') \<or> appends w w' \<or> removes w w'"
proof (induction rule: step.induct)
  case (step_create w unicodeLower fresh now r)
  then show ?case by (simp add: Handlers_CreateJob_appends)
next
  case (step_get w idStr)
  then show ?case using Handlers_GetJob_preserves by (simp add: appends_def)
next
  case (step_cancel w idStr now)
  then show ?case using Handlers_CancelJob_preserves by (simp add: appends_def)
next
  case (step_process w workerID process msg now fin)
  then show ?case using processJob_updates by blast
next
  case (step_cleanup w wk now)
  then show ?case by (simp add: cleanup_removes)
next
  case (step_other w' w)
  then show ?case by (simp add: appends_def preserves_def list_all2_refl)
qed

lemma reachable_inv: "reachable w \<Longrightarrow> inv w"
proof (induction rule: reachable.induct)
  case (reachable_init ds bs qs)
  then show ?case by (simp add: inv_def pk_def)
next
  case (reachable_step w w')
  then show ?case using step_kinds inv_appends inv_removes inv_updates by blast
qed

lemma step_monotone:
  assumes "inv w" and "step w w'" and "row jid w = Some j" and "row jid w' = Some j'"
  shows "Progress j \<le> Progress j'
       \<and> (Progress j' = Progress j
          \<or> Progress j = 0 \<and> Progress j' = 100 \<and> Status j' = JobStatusCompleted)"
proof -
  have okj: "progress_ok j"
    using assms(1) row_Some_ID [OF assms(3)] by (simp add: inv_def)
  from step_kinds [OF assms(2)] consider k where "list_all2 (advances k) (jobs w) (jobs w')"
    | new where "list_all2 keeps (jobs w @ [new]) (jobs w')"
    | "removes w w'"
    unfolding appends_def updates_def preserves_def using kept_advanced by blast
  then show ?thesis
  proof cases
    case 1
    then obtain a where "find (\<lambda>j. ID j = jid) (jobs w) = Some a" "advances k a j'"
      using advanced_row assms(4) unfolding row_def by blast
    then show ?thesis
      using assms(3) okj by (auto simp: row_def advances_def keeps_def progress_ok_def)
  next
    case 2
    then obtain a where a: "find (\<lambda>j. ID j = jid) (jobs w @ [new]) = Some a" "advances 0 a j'"
      using advanced_row [OF kept_advanced] assms(4) unfolding row_def by blast
    have "find (\<lambda>j. ID j = jid) (jobs w @ [new]) = Some j"
      using assms(3) by (simp add: row_def find_in_prefix)
    then show ?thesis
      using a okj 2 kept_rows [OF 2]  assms(3,4)
      by (auto simp: advances_def keeps_def progress_ok_def)
  next
    case 3
    then obtain P where P: "jobs w' = filter P (jobs w)" unfolding removes_def by blast
    have "j' \<in> set (jobs w) \<and> ID j' = jid"
      using row_Some_ID [OF assms(4)] P by simp
    moreover have "j \<in> set (jobs w) \<and> ID j = jid"
      using row_Some_ID [OF assms(3)] by simp
    moreover have "inj_on ID (set (jobs w))"
      using assms(1) by (simp add: inv_def pk_def distinct_map)
    ultimately have "j' = j" by (auto dest: inj_onD)
    then show ?thesis by simp
  qed
qed

text \<open>
  Claim C10. In every reachable world every row of table \<open>jobs\<close> has progress 0 or 100,
  and progress 100 when it is COMPLETED. From a reachable world, one step of any
  component never lowers the progress of a row that is there before and after the step;
  when the step changes the progress of the row, it changes it from 0 to 100 and leaves
  the row COMPLETED. What \<open>GetByID\<close> returns (and the status stream serialises) has
  progress 0 or 100.

  Of the repository methods the components call, \<open>Create\<close> inserts its row with progress
  0; \<open>CompleteJob\<close>, when it succeeds, finds a row of the id and leaves every row of that
  id COMPLETED with progress 100 and every other row as it was; \<open>UpdateStatus\<close>,
  \<open>StartProcessing\<close>, \<open>FailJob\<close> and \<open>CancelJob\<close> leave the progress of every row as it was.

  Of the components, the acceptor leaves the progress of every row as it was, and adds
  at most one row, with progress 0, when it creates a job; the worker, processing a
  message, changes the progress of no row but that of the job of the message, which it
  either leaves as it was or ends COMPLETED with progress 100; the sweeper only removes
  rows. None of them calls \<open>UpdateProgress\<close>.
\<close>

theorem progress_zero_or_hundred:
  assumes "reachable w"
  shows "(\<forall>j\<in>set (jobs w). (Progress j = 0 \<or> Progress j = 100)
            \<and> (Status j = JobStatusCompleted \<longrightarrow> Progress j = 100))
    \<and> (\<forall>w' jid j j'. step w w' \<and> row jid w = Some j \<and> row jid w' = Some j' \<longrightarrow>
          Progress j \<le> Progress j'
          \<and> (Progress j' = Progress j
             \<or> Progress j = 0 \<and> Progress j' = 100 \<and> Status j' = JobStatusCompleted))
    \<and> (\<forall>jid j. fst (GetByID jid w) = Inr (Some j) \<longrightarrow> Progress j = 0 \<or> Progress j = 100)
    \<and> (\<forall>job v u v'. Create job v = (Inr u, v') \<longrightarrow>
          (\<exists>new. jobs v' = jobs v @ [new] \<and> ID new = ID job \<and> Progress new = 0))
    \<and> (\<forall>jid key hours now v u v'. CompleteJob jid key hours now v = (Inr u, v') \<longrightarrow>
          jid \<in> ID ` set (jobs v)
          \<and> list_all2 (\<lambda>j j'. if ID j = jid
                               then ID j' = jid \<and> Progress j' = 100 \<and> Status j' = JobStatusCompleted
                               else j' = j) (jobs v) (jobs v'))
    \<and> (\<forall>jid st wid msg now v.
          map Progress (jobs (snd (UpdateStatus jid st now v))) = map Progress (jobs v)
          \<and> map Progress (jobs (snd (StartProcessing jid wid now v))) = map Progress (jobs v)
          \<and> map Progress (jobs (snd (FailJob jid msg now v))) = map Progress (jobs v)
          \<and> map Progress (jobs (snd (CancelJob jid now v))) = map Progress (jobs v))
    \<and> (\<forall>unicodeLower fresh now r idStr.
          (map Progress (jobs (snd (Handlers_CreateJob unicodeLower fresh now r w)))
             = map Progress (jobs w)
           \<or> map Progress (jobs (snd (Handlers_CreateJob unicodeLower fresh now r w)))
             = map Progress (jobs w) @ [0])
          \<and> map Progress (jobs (snd (Handlers_GetJob idStr w))) = map Progress (jobs w)
          \<and> map Progress (jobs (snd (Handlers_CancelJob idStr now w))) = map Progress (jobs w))
    \<and> (\<forall>wid process msg now fin.
          list_all2 (\<lambda>j j'. ID j' = ID j \<and>
               (Progress j' = Progress j \<or>
                ID j = JobID (MsgJob msg) \<and> Progress j' = 100 \<and> Status j' = JobStatusCompleted))
            (jobs w) (jobs (snd (processJob wid process msg now fin w))))
    \<and> (\<forall>wk now. \<exists>P. jobs (snd (cleanup wk now w)) = filter P (jobs w))"
proof -
  have i: "inv w" by (rule reachable_inv [OF assms])
  then have A: "\<forall>j\<in>set (jobs w). (Progress j = 0 \<or> Progress j = 100)
            \<and> (Status j = JobStatusCompleted \<longrightarrow> Progress j = 100)"
    by (simp add: inv_def progress_ok_def)
  have B: "\<forall>w' jid j j'. step w w' \<and> row jid w = Some j \<and> row jid w' = Some j' \<longrightarrow>
          Progress j \<le> Progress j'
          \<and> (Progress j' = Progress j
             \<or> Progress j = 0 \<and> Progress j' = 100 \<and> Status j' = JobStatusCompleted)"
    using step_monotone [OF i] by blast
  have C: "\<forall>jid j. fst (GetByID jid w) = Inr (Some j) \<longrightarrow> Progress j = 0 \<or> Progress j = 100"
    using A by (auto simp: GetByID_def io_def find_Some_iff split: option.splits)
  have D: "\<forall>job v u v'. Create job v = (Inr u, v') \<longrightarrow>
          (\<exists>new. jobs v' = jobs v @ [new] \<and> ID new = ID job \<and> Progress new = 0)"
    using Create_new_row by blast
  have E: "\<forall>jid key hours now v u v'. CompleteJob jid key hours now v = (Inr u, v') \<longrightarrow>
          jid \<in> ID ` set (jobs v)
          \<and> list_all2 (\<lambda>j j'. if ID j = jid
                               then ID j' = jid \<and> Progress j' = 100 \<and> Status j' = JobStatusCompleted
                               else j' = j) (jobs v) (jobs v')"
    using CompleteJob_row by blast
  have F: "\<forall>jid st wid msg now v.
          map Progress (jobs (snd (UpdateStatus jid st now v))) = map Progress (jobs v)
          \<and> map Progress (jobs (snd (StartProcessing jid wid now v))) = map Progress (jobs v)
          \<and> map Progress (jobs (snd (FailJob jid msg now v))) = map Progress (jobs v)
          \<and> map Progress (jobs (snd (CancelJob jid now v))) = map Progress (jobs v)"
    by (simp add: writers_keep_progress)
  have G: "\<forall>unicodeLower fresh now r idStr.
          (map Progress (jobs (snd (Handlers_CreateJob unicodeLower fresh now r w)))
             = map Progress (jobs w)
           \<or> map Progress (jobs (snd (Handlers_CreateJob unicodeLower fresh now r w)))
             = map Progress (jobs w) @ [0])
          \<and> map Progress (jobs (snd (Handlers_GetJob idStr w))) = map Progress (jobs w)
          \<and> map Progress (jobs (snd (Handlers_CancelJob idStr now w))) = map Progress (jobs w)"
    using appends_Progress [OF Handlers_CreateJob_appends]
      kept_rows [OF Handlers_GetJob_preserves [unfolded preserves_def]]
      kept_rows [OF Handlers_CancelJob_preserves [unfolded preserves_def]]
    by simp
  have H: "\<forall>wid process msg now fin.
          list_all2 (\<lambda>j j'. ID j' = ID j \<and>
               (Progress j' = Progress j \<or>
                ID j = JobID (MsgJob msg) \<and> Progress j' = 100 \<and> Status j' = JobStatusCompleted))
            (jobs w) (jobs (snd (processJob wid process msg now fin w)))"
    by (simp add: processJob_rows)
  have I: "\<forall>wk now. \<exists>P. jobs (snd (cleanup wk now w)) = filter P (jobs w)"
    using cleanup_removes by (simp add: removes_def)
  show ?thesis
    apply (rule conjI [OF A])
    apply (rule conjI [OF B])
    apply (rule conjI [OF C])
    apply (rule conjI [OF D])
    apply (rule conjI [OF E])
    apply (rule conjI [OF F])
    apply (rule conjI [OF G])
    apply (rule conjI [OF H])
    apply (rule I)
    done
qed

theorem progress_zero_or_hundred_witness:
  "reachable uploaded_world
   \<and> map Progress (jobs uploaded_world) = [0]
   \<and> list_all (\<lambda>j. Progress j = 0 \<or> Progress j = 100) (jobs uploaded_world)"
proof -
  have i: "reachable (world_of [])"
    unfolding world_of_def by (rule reachable_init)
  have r: "reachable uploaded_world"
    unfolding uploaded_world_def by (rule reachable_step [OF i step_create])
  have p: "map Progress (jobs uploaded_world) = [0]"
    by (simp add: uploaded_world_def handler_defs request_defs eval_defs)
  show ?thesis
    using r p progress_zero_or_hundred [OF r] by (simp add: list_all_iff)
qed

end
